theory Spec2Isabelle
  imports Main "HOL-Library.Char_ord"
begin

section \<open>The Yak client transport (yak.h, yak.c)\<close>

text \<open>
  A shallow embedding of the C library \<^verbatim>\<open>yak.c\<close>. Bytes (\<^verbatim>\<open>char\<close>) are HOL characters,
  compared through their unsigned code (the only comparisons of the source are against
  ASCII constants, where signed and unsigned \<^verbatim>\<open>char\<close> agree). Values of type \<^verbatim>\<open>long\<close>
  and \<^verbatim>\<open>int\<close> are integers; the one place where the source can overflow a \<^verbatim>\<open>long\<close>
  (the accumulation of the length field) wraps around on 64 bits, written out.
  A pointer that may be \<^verbatim>\<open>NULL\<close> is an option. The operating system is an explicit
  state, \<open>world\<close>, threaded through every function that makes a system call.
\<close>

subsection \<open>Error codes\<close>

text \<open>The constants of \<^verbatim>\<open>errno.h\<close> that the source names, with their Linux values.\<close>

definition EIO :: int where "EIO = 5"
definition EBADF :: int where "EBADF = 9"
definition ENOMEM :: int where "ENOMEM = 12"
definition EACCES :: int where "EACCES = 13"
definition EFAULT :: int where "EFAULT = 14"
definition EINVAL :: int where "EINVAL = 22"
definition EBADMSG :: int where "EBADMSG = 74"
definition EOVERFLOW :: int where "EOVERFLOW = 75"
definition EMSGSIZE :: int where "EMSGSIZE = 90"
definition ECONNRESET :: int where "ECONNRESET = 104"

lemmas errno_defs =
  EIO_def EBADF_def ENOMEM_def EACCES_def EFAULT_def EINVAL_def EBADMSG_def
  EOVERFLOW_def EMSGSIZE_def ECONNRESET_def

subsection \<open>Data model\<close>

text \<open>\<^verbatim>\<open>struct yak_connection_\<close>: the peer name (\<open>None\<close> is \<^verbatim>\<open>NULL\<close>), the socket, the port.\<close>

record yak_connection =
  peer :: "string option"
  sock :: int
  port :: int

text \<open>\<^verbatim>\<open>struct message_info_\<close>, with its fields \<^verbatim>\<open>len\<close> and \<^verbatim>\<open>type\<close>.\<close>

record message_info =
  msg_len :: int
  msg_type :: char

text \<open>The fields of \<^verbatim>\<open>struct addrinfo\<close> that the source reads.\<close>

record addrinfo =
  ai_family :: int
  ai_socktype :: int
  ai_protocol :: int
  ai_addr :: string
  ai_canonname :: "string option"

subsection \<open>The operating system\<close>

text \<open>
  What the next calls of \<^verbatim>\<open>recv\<close> will see: a segment of bytes that has arrived
  (an empty segment, like the end of the list, is a \<^verbatim>\<open>recv\<close> that returns 0), or a
  failure that sets \<^verbatim>\<open>errno\<close>. What the next calls of \<^verbatim>\<open>send\<close> will do: take at most
  so many bytes, or fail; when nothing is planned the socket takes all it is given.
  The state also keeps what the peer has been sent (\<open>tx\<close>), the number of calls of
  \<^verbatim>\<open>recv\<close> made so far, and the trace of the other system calls.
\<close>

datatype rx_event = Segment "char list" | RxFault int

datatype tx_event = Accept nat | TxFault int

datatype syscall =
  GetAddrInfo string string bool
  | Socket int int int
  | Connect int string
  | Close int
  | Stderr "string option"

record world =
  errno :: int
  rx :: "rx_event list"
  recv_calls :: nat
  tx_plan :: "tx_event list"
  tx :: "char list"
  close_fault :: "int \<Rightarrow> int option"
  alloc_fault :: "int option"
  resolver :: "string \<Rightarrow> string \<Rightarrow> bool \<Rightarrow> addrinfo list"
  socket_result :: "addrinfo \<Rightarrow> int + int"
  connect_fault :: "addrinfo \<Rightarrow> int option"
  trace :: "syscall list"

text \<open>\<^verbatim>\<open>recv(fd, ptr, len, 0)\<close>: the count returned, the bytes stored at \<^verbatim>\<open>ptr\<close>, the new state.\<close>

definition recv :: "int \<Rightarrow> int \<Rightarrow> world \<Rightarrow> int \<times> char list \<times> world" where
  "recv fd n w =
     (let w = w\<lparr>recv_calls := recv_calls w + 1\<rparr>
      in case rx w of
           [] \<Rightarrow> (0, [], w)
         | RxFault e # evs \<Rightarrow> (-1, [], w\<lparr>errno := e, rx := evs\<rparr>)
         | Segment bs # evs \<Rightarrow>
             (let k = min (length bs) (nat n)
              in (int k, take k bs,
                  w\<lparr>rx := (if k < length bs then Segment (drop k bs) # evs else evs)\<rparr>)))"

text \<open>\<^verbatim>\<open>send(fd, ptr, len, 0)\<close> on the bytes at \<^verbatim>\<open>ptr\<close>: the count returned and the new state.\<close>

definition send :: "int \<Rightarrow> char list \<Rightarrow> int \<Rightarrow> world \<Rightarrow> int \<times> world" where
  "send fd buf n w =
     (case tx_plan w of
        [] \<Rightarrow> (n, w\<lparr>tx := tx w @ take (nat n) buf\<rparr>)
      | TxFault e # plan \<Rightarrow> (-1, w\<lparr>errno := e, tx_plan := plan\<rparr>)
      | Accept k # plan \<Rightarrow>
          (let m = min (int k) n
           in (m, w\<lparr>tx_plan := plan, tx := tx w @ take (nat m) buf\<rparr>)))"

text \<open>\<^verbatim>\<open>close(fd)\<close>: 0, or -1 with \<^verbatim>\<open>errno\<close> set.\<close>

definition close_fd :: "int \<Rightarrow> world \<Rightarrow> int \<times> world" where
  "close_fd fd w =
     (case close_fault w fd of
        None \<Rightarrow> (0, w\<lparr>trace := trace w @ [Close fd]\<rparr>)
      | Some e \<Rightarrow> (-1, w\<lparr>errno := e, trace := trace w @ [Close fd]\<rparr>))"

text \<open>\<^verbatim>\<open>malloc\<close> and \<^verbatim>\<open>strdup\<close>: whether the allocation succeeded.\<close>

definition alloc :: "world \<Rightarrow> bool \<times> world" where
  "alloc w =
     (case alloc_fault w of
        None \<Rightarrow> (True, w)
      | Some e \<Rightarrow> (False, w\<lparr>errno := e\<rparr>))"

text \<open>\<^verbatim>\<open>getaddrinfo\<close>: the list of addresses; the empty list is a failed resolution.\<close>

definition getaddrinfo :: "string \<Rightarrow> string \<Rightarrow> bool \<Rightarrow> world \<Rightarrow> addrinfo list \<times> world" where
  "getaddrinfo host service passive w =
     (resolver w host service passive,
      w\<lparr>trace := trace w @ [GetAddrInfo host service passive]\<rparr>)"

text \<open>\<^verbatim>\<open>socket(family, socktype, protocol)\<close>: a descriptor, or -1 with \<^verbatim>\<open>errno\<close> set.\<close>

definition socket :: "addrinfo \<Rightarrow> world \<Rightarrow> int \<times> world" where
  "socket ai w =
     (let w' = w\<lparr>trace := trace w @ [Socket (ai_family ai) (ai_socktype ai) (ai_protocol ai)]\<rparr>
      in case socket_result w ai of
           Inl e \<Rightarrow> (-1, w'\<lparr>errno := e\<rparr>)
         | Inr fd \<Rightarrow> (fd, w'))"

text \<open>\<^verbatim>\<open>connect(sock, addr, addrlen)\<close>: 0, or -1 with \<^verbatim>\<open>errno\<close> set.\<close>

definition connect :: "int \<Rightarrow> addrinfo \<Rightarrow> world \<Rightarrow> int \<times> world" where
  "connect fd ai w =
     (let w' = w\<lparr>trace := trace w @ [Connect fd (ai_addr ai)]\<rparr>
      in case connect_fault w ai of
           None \<Rightarrow> (0, w')
         | Some e \<Rightarrow> (-1, w'\<lparr>errno := e\<rparr>))"

subsection \<open>\<^verbatim>\<open>get_errno\<close>\<close>

text \<open>\<^verbatim>\<open>yak.c\<close>, lines 26 to 31: \<^verbatim>\<open>errno\<close>, or \<open>def\<close> when \<^verbatim>\<open>errno\<close> is 0.\<close>

definition get_errno :: "world \<Rightarrow> int \<Rightarrow> int" where
  "get_errno w def = (let val = errno w in if val = 0 then def else val)"

subsection \<open>\<^verbatim>\<open>print_integer\<close>\<close>

text \<open>
  \<^verbatim>\<open>yak.c\<close>, lines 33 to 85. C division and remainder truncate towards zero; the
  source applies them to a negative \<open>val\<close> in its second branch.
\<close>

definition c_div :: "int \<Rightarrow> int \<Rightarrow> int" where
  "c_div a b = (if (a < 0) = (b < 0) then \<bar>a\<bar> div \<bar>b\<bar> else - (\<bar>a\<bar> div \<bar>b\<bar>))"

definition c_mod :: "int \<Rightarrow> int \<Rightarrow> int" where
  "c_mod a b = a - b * c_div a b"

definition ZERO :: char where "ZERO = CHR ''0''"
definition NINE :: char where "NINE = CHR ''9''"
definition COLON :: char where "COLON = CHR '':''"
definition MINUS :: char where "MINUS = CHR ''-''"
definition NL :: char where "NL = CHR 0x0A"
definition NUL :: char where "NUL = CHR 0x00"

text \<open>The \<^verbatim>\<open>char\<close> that the integer expression \<open>x\<close> is stored as.\<close>

definition to_char :: "int \<Rightarrow> char" where
  "to_char x = char_of x"

text \<open>
  The first loop: \<^verbatim>\<open>while (r > 0) { if (++i >= len) return -1; buf[i] = '0' + (r % 10); r /= 10; }\<close>.
  The indices \<open>i\<close> and \<open>j\<close> of the source never go below 0 and are natural numbers here.
  The result is \<open>Inl\<close> of the buffer as it stands at the \<^verbatim>\<open>return -1\<close>, or \<open>Inr\<close> of
  the last index and the buffer when the loop ends.
\<close>

function write_digits :: "char list \<Rightarrow> int \<Rightarrow> nat \<Rightarrow> int \<Rightarrow> char list + nat \<times> char list" where
  "write_digits buf len i r =
     (if r > 0 then
        (if int (i + 1) \<ge> len then Inl buf
         else write_digits (buf[i + 1 := to_char (of_char ZERO + r mod 10)]) len (i + 1) (r div 10))
      else Inr (i, buf))"
  by pat_completeness auto
termination
  by (relation "measure (\<lambda>(buf, len, i, r). nat r)") auto

declare write_digits.simps [simp del]

text \<open>
  The second loop:
  \<^verbatim>\<open>while (j < i) { char c = buf[i]; buf[i] = buf[j]; buf[j] = c; ++j; --i; }\<close>.
\<close>

function reverse_digits :: "char list \<Rightarrow> nat \<Rightarrow> nat \<Rightarrow> char list" where
  "reverse_digits buf j i =
     (if j < i then
        (let c = buf ! i
         in reverse_digits (buf[i := buf ! j, j := c]) (j + 1) (i - 1))
      else buf)"
  by pat_completeness auto
termination
  by (relation "measure (\<lambda>(buf, j, i). i - j)") auto

declare reverse_digits.simps [simp del]

text \<open>
  \<open>print_integer buf len val\<close>: the value returned (the number of characters written,
  or -1) and the buffer afterwards. \<open>buf\<close> holds at least \<open>len\<close> characters.
\<close>

definition print_integer :: "char list \<Rightarrow> int \<Rightarrow> int \<Rightarrow> int \<times> char list" where
  "print_integer buf len val =
     (if val \<ge> 0 then
        (if len < 2 then (-1, buf)
         else
           (let buf0 = buf[0 := to_char (of_char ZERO + c_mod val 10)]
            in case write_digits buf0 len 0 (c_div val 10) of
                 Inl buf1 \<Rightarrow> (-1, buf1)
               | Inr (i, buf1) \<Rightarrow>
                   (let n = i + 1
                    in if int n \<ge> len then (-1, buf1)
                       else (int n, reverse_digits (buf1[n := NUL]) 0 i))))
      else
        (if len < 3 then (-1, buf)
         else
           (let buf0 = buf[0 := MINUS, 1 := to_char (of_char ZERO - c_mod val 10)]
            in case write_digits buf0 len 1 (- c_div val 10) of
                 Inl buf1 \<Rightarrow> (-1, buf1)
               | Inr (i, buf1) \<Rightarrow>
                   (let n = i + 1
                    in if int n \<ge> len then (-1, buf1)
                       else (int n, reverse_digits (buf1[n := NUL]) 1 i)))))"

subsection \<open>\<^verbatim>\<open>yak_is_open\<close>, \<^verbatim>\<open>yak_init\<close>, \<^verbatim>\<open>yak_close\<close>\<close>

text \<open>\<^verbatim>\<open>yak.c\<close>, lines 87 to 120. A connection pointer that is \<^verbatim>\<open>NULL\<close> is \<open>None\<close>.\<close>

definition yak_is_open :: "yak_connection option \<Rightarrow> bool" where
  "yak_is_open conn = (case conn of None \<Rightarrow> False | Some c \<Rightarrow> sock c \<ge> 0)"

definition yak_init :: "yak_connection option \<Rightarrow> yak_connection option" where
  "yak_init conn =
     (case conn of
        None \<Rightarrow> None
      | Some c \<Rightarrow> Some \<lparr>peer = None, sock = -1, port = 0\<rparr>)"

definition yak_close :: "yak_connection option \<Rightarrow> world \<Rightarrow> int \<times> yak_connection option \<times> world" where
  "yak_close conn w =
     (case conn of
        None \<Rightarrow> (0, None, w)
      | Some c \<Rightarrow>
          (let (status, c1, w1) =
                 (if sock c \<noteq> -1 then
                    (let (status, w') =
                           (if sock c \<ge> 0 then
                              (let (r, w') = close_fd (sock c) w
                               in if r \<noteq> 0 then (errno w', w') else (0, w'))
                            else (0, w))
                     in (status, c\<lparr>sock := -1\<rparr>, w'))
                  else (0, c, w));
               c2 = (if peer c1 \<noteq> None then c1\<lparr>peer := None\<rparr> else c1)
           in (status, Some (c2\<lparr>port := 0\<rparr>), w1)))"

subsection \<open>\<^verbatim>\<open>listaddrinfo\<close> and \<^verbatim>\<open>yak_connect\<close>\<close>

text \<open>
  \<^verbatim>\<open>yak.c\<close>, lines 122 to 188.
  \<open>listaddrinfo host portnum passive\<close>: the list of addresses (empty for \<^verbatim>\<open>NULL\<close>).
  The buffer \<^verbatim>\<open>service\<close> has 8 characters; the service name is what
  \<^verbatim>\<open>print_integer\<close> wrote before the terminating \<^verbatim>\<open>'\0'\<close>.
\<close>

definition listaddrinfo :: "string option \<Rightarrow> int \<Rightarrow> bool \<Rightarrow> world \<Rightarrow> addrinfo list \<times> world" where
  "listaddrinfo host portnum passive w =
     (case host of
        None \<Rightarrow> ([], w\<lparr>errno := EFAULT\<rparr>)
      | Some h \<Rightarrow>
          if portnum < 0 \<or> portnum > 65535 then ([], w\<lparr>errno := EINVAL\<rparr>)
          else
            (case print_integer (replicate 8 NUL) 8 portnum of (n, service) \<Rightarrow>
               if n < 0 then ([], w\<lparr>errno := EOVERFLOW\<rparr>)
               else getaddrinfo h (take (nat n) service) passive w))"

text \<open>
  The loop of \<^verbatim>\<open>yak_connect\<close> over the list of addresses: the first address that a
  new socket connects to sets \<^verbatim>\<open>conn->sock\<close>; a socket that did not connect is closed.
\<close>

fun try_addresses :: "yak_connection \<Rightarrow> addrinfo list \<Rightarrow> world \<Rightarrow> yak_connection \<times> world" where
  "try_addresses conn [] w = (conn, w)"
| "try_addresses conn (ai # ais) w =
     (case socket ai w of (fd, w1) \<Rightarrow>
        if fd \<noteq> -1 then
          (case connect fd ai w1 of (r, w2) \<Rightarrow>
             if r \<noteq> -1 then (conn\<lparr>sock := fd\<rparr>, w2)
             else (case close_fd fd w2 of (_, w3) \<Rightarrow> try_addresses conn ais w3))
        else try_addresses conn ais w1)"

definition yak_connect ::
  "yak_connection option \<Rightarrow> string option \<Rightarrow> int \<Rightarrow> world \<Rightarrow> int \<times> yak_connection option \<times> world" where
  "yak_connect conn host portnum w =
     (case yak_init conn of
        None \<Rightarrow> (EFAULT, None, w)
      | Some c0 \<Rightarrow>
          (let h = (case host of None \<Rightarrow> ''127.0.0.1'' | Some h \<Rightarrow> h)
           in case listaddrinfo (Some h) portnum False w of (list, w1) \<Rightarrow>
                (let w2 = (case list of
                             [] \<Rightarrow> w1
                           | ai # _ \<Rightarrow> w1\<lparr>trace := trace w1 @ [Stderr (ai_canonname ai)]\<rparr>)
                 in case try_addresses c0 list w2 of (c1, w3) \<Rightarrow>
                      if sock c1 = -1 then (EACCES, Some c1, w3)
                      else
                        (case alloc w3 of (ok, w4) \<Rightarrow>
                           if \<not> ok then
                             (let status = get_errno w4 ENOMEM
                              in case yak_close (Some c1) w4 of (_, c2, w5) \<Rightarrow> (status, c2, w5))
                           else (0, Some (c1\<lparr>peer := Some h, port := portnum\<rparr>), w4)))))"

subsection \<open>\<^verbatim>\<open>recv_data\<close> and \<^verbatim>\<open>send_data\<close>\<close>

text \<open>
  \<^verbatim>\<open>yak.c\<close>, lines 190 to 227.
  The loop of \<^verbatim>\<open>recv_data\<close>; \<open>got\<close> is what has been stored between \<^verbatim>\<open>data\<close> and
  \<^verbatim>\<open>ptr\<close>. The result is the value returned, the bytes stored and the new state.
\<close>

function recv_loop :: "yak_connection \<Rightarrow> char list \<Rightarrow> int \<Rightarrow> world \<Rightarrow> int \<times> char list \<times> world" where
  "recv_loop conn got len w =
     (if len > 0 then
        (case recv (sock conn) len w of (n, bs, w') \<Rightarrow>
           if n < 0 then (-1, got, w')
           else if n = 0 then (int (length got), got, w')
           else recv_loop conn (got @ bs) (len - n) w')
      else (int (length got), got, w))"
  by pat_completeness auto
termination
  by (relation "measure (\<lambda>(conn, got, len, w). nat len)") auto

declare recv_loop.simps [simp del]

definition recv_data :: "yak_connection \<Rightarrow> int \<Rightarrow> world \<Rightarrow> int \<times> char list \<times> world" where
  "recv_data conn len w = recv_loop conn [] len w"

text \<open>
  The loop of \<^verbatim>\<open>send_data\<close>; \<open>off\<close> is \<^verbatim>\<open>ptr - data\<close>. The bytes at \<^verbatim>\<open>data\<close> are
  the list \<open>data\<close>, which holds at least \<open>len\<close> bytes.
\<close>

function send_loop :: "yak_connection \<Rightarrow> char list \<Rightarrow> nat \<Rightarrow> int \<Rightarrow> world \<Rightarrow> int \<times> world" where
  "send_loop conn data off len w =
     (if len > 0 then
        (case send (sock conn) (drop off data) len w of (n, w') \<Rightarrow>
           if n < 0 then (-1, w')
           else if n = 0 then (int off, w')
           else send_loop conn data (off + nat n) (len - n) w')
      else (int off, w))"
  by pat_completeness auto
termination
  by (relation "measure (\<lambda>(conn, data, off, len, w). nat len)") auto

declare send_loop.simps [simp del]

definition send_data :: "yak_connection \<Rightarrow> char list \<Rightarrow> int \<Rightarrow> world \<Rightarrow> int \<times> world" where
  "send_data conn data len w = send_loop conn data 0 len w"

subsection \<open>\<^verbatim>\<open>yak_send_message\<close>\<close>

text \<open>
  \<^verbatim>\<open>yak.c\<close>, lines 229 to 284. The label \<^verbatim>\<open>error:\<close> of the three message functions:
  close, then return \<open>status\<close>.
\<close>

definition goto_error ::
  "yak_connection option \<Rightarrow> int \<Rightarrow> world \<Rightarrow> int \<times> yak_connection option \<times> world" where
  "goto_error conn status w = (case yak_close conn w of (_, conn', w') \<Rightarrow> (status, conn', w'))"

text \<open>
  \<open>data\<close> is \<open>None\<close> for \<^verbatim>\<open>NULL\<close>, and otherwise the bytes it points to (at least
  \<open>len\<close> of them). The 32 characters of \<^verbatim>\<open>header\<close> are not initialised in the
  source; every one that is sent has been written before.
\<close>

definition yak_send_message ::
  "yak_connection option \<Rightarrow> char \<Rightarrow> char list option \<Rightarrow> int \<Rightarrow> world
     \<Rightarrow> int \<times> yak_connection option \<times> world" where
  "yak_send_message conn type data len w =
     (case conn of
        None \<Rightarrow> (EFAULT, None, w)
      | Some c \<Rightarrow>
          if sock c < 0 then (EBADF, conn, w)
          else if len < 0 then goto_error conn EINVAL w
          else if data = None \<and> len > 0 then goto_error conn EFAULT w
          else
            (let header = (replicate 32 NUL)[0 := type, 1 := COLON]
             in case print_integer (drop 2 header) (32 - 2) len of (ndigits, digits) \<Rightarrow>
                  if ndigits < 0 \<or> ndigits + 3 \<ge> 32 then goto_error conn EOVERFLOW w
                  else
                    (let header = (take 2 header @ digits)
                                    [nat (ndigits + 2) := NL, nat (ndigits + 3) := NUL]
                     in case send_data c header (ndigits + 3) w of (nbytes, w1) \<Rightarrow>
                          if nbytes \<noteq> ndigits + 3
                          then goto_error conn (get_errno w1 (if nbytes < 0 then EIO else ECONNRESET)) w1
                          else
                            (case (if len > 0 then
                                     (case send_data c (case data of None \<Rightarrow> [] | Some d \<Rightarrow> d) len w1 of
                                        (nbytes, w2) \<Rightarrow>
                                          (if nbytes \<noteq> len
                                           then Some (get_errno w2 (if nbytes < 0 then EIO else ECONNRESET))
                                           else None, w2))
                                   else (None, w1)) of
                               (Some status, w2) \<Rightarrow> goto_error conn status w2
                             | (None, w2) \<Rightarrow>
                                 (case send_data c [NL] 1 w2 of (nbytes, w3) \<Rightarrow>
                                    if nbytes \<noteq> 1
                                    then goto_error conn (get_errno w3 (if nbytes < 0 then EIO else ECONNRESET)) w3
                                    else (0, conn, w3))))))"

subsection \<open>\<^verbatim>\<open>recv_message_info\<close> and \<^verbatim>\<open>recv_message_data\<close>\<close>

text \<open>
  \<^verbatim>\<open>yak.c\<close>, lines 286 to 357. Arithmetic on \<^verbatim>\<open>long\<close> where it can overflow: the
  result is reduced to 64 bits, two's complement.
\<close>

definition long_wrap :: "int \<Rightarrow> int" where
  "long_wrap x = (x + 2 ^ 63) mod 2 ^ 64 - 2 ^ 63"

text \<open>The number of bytes that the pending events still hold.\<close>

fun pending :: "rx_event list \<Rightarrow> nat" where
  "pending [] = 0"
| "pending (Segment bs # evs) = length bs + pending evs"
| "pending (RxFault e # evs) = pending evs"

lemma recv_pending:
  "recv fd n w = (k, bs, w') \<Longrightarrow> 0 \<le> k \<Longrightarrow> pending (rx w') + nat k = pending (rx w)"
  by (auto simp: recv_def Let_def split: list.splits rx_event.splits if_splits)

lemma recv_loop_pending:
  "recv_loop conn got n w = (k, bs, w') \<Longrightarrow> 0 \<le> k \<Longrightarrow>
   pending (rx w') + nat k = pending (rx w) + length got"
proof (induction conn got n w rule: recv_loop.induct)
  case (1 conn got len w)
  show ?case
  proof (cases "len > 0")
    case False
    with "1.prems" show ?thesis by (subst (asm) recv_loop.simps) auto
  next
    case True
    obtain m cs w1 where r: "recv (sock conn) len w = (m, cs, w1)"
      by (cases "recv (sock conn) len w") auto
    have lcs: "m \<ge> 0 \<Longrightarrow> length cs = nat m"
      using r by (auto simp: recv_def Let_def split: list.splits rx_event.splits)
    show ?thesis
    proof (cases "m > 0")
      case False
      with True r "1.prems" recv_pending [OF r] show ?thesis
        by (subst (asm) recv_loop.simps) (auto split: if_splits)
    next
      case pos: True
      with True r "1.prems" have "recv_loop conn (got @ cs) (len - m) w1 = (k, bs, w')"
        by (subst (asm) recv_loop.simps) simp
      from "1.IH" [OF True r [symmetric] refl _ _ this "1.prems"(2)] pos
      have "pending (rx w') + nat k = pending (rx w1) + length (got @ cs)"
        by simp
      with recv_pending [OF r] lcs pos show ?thesis by simp
    qed
  qed
qed

lemma recv_data_pending:
  "recv_data conn 1 w = (1, buf, w') \<Longrightarrow> pending (rx w') < pending (rx w)"
  using recv_loop_pending [of conn "[]" 1 w 1 buf w'] by (simp add: recv_data_def)

text \<open>
  The loop of \<^verbatim>\<open>recv_message_info\<close> on the characters after the first digit: \<open>c\<close> is
  the character under examination and \<open>len\<close> the length accumulated so far. The result
  is the status, the length and the new state.
\<close>

function header_loop :: "yak_connection \<Rightarrow> int \<Rightarrow> char \<Rightarrow> world \<Rightarrow> int \<times> int \<times> world" where
  "header_loop conn len c w =
     (if c \<noteq> NL then
        (if c \<ge> ZERO \<and> c \<le> NINE then
           (let prev = len;
                len' = long_wrap ((of_char c - of_char ZERO) + long_wrap (10 * len))
            in if len' < prev then (EOVERFLOW, len', w)
               else
                 (case recv_data conn 1 w of (nbytes, buf, w') \<Rightarrow>
                    if nbytes \<noteq> 1
                    then ((if nbytes < 0 then get_errno w' EIO else EBADMSG), len', w')
                    else header_loop conn len' (buf ! 0) w'))
         else (EBADMSG, len, w))
      else (0, len, w))"
  by pat_completeness auto
termination
  by (relation "measure (\<lambda>(conn, len, c, w). pending (rx w))")
     (auto dest: recv_data_pending [OF sym])

declare header_loop.simps [simp del]

definition recv_message_info :: "yak_connection \<Rightarrow> world \<Rightarrow> int \<times> message_info \<times> world" where
  "recv_message_info conn w =
     (let hdr = \<lparr>msg_len = 0, msg_type = NUL\<rparr>
      in case recv_data conn 4 w of (nbytes, buf, w1) \<Rightarrow>
           if nbytes \<noteq> 4 then ((if nbytes < 0 then get_errno w1 EIO else EBADMSG), hdr, w1)
           else
             (let type = buf ! 0
              in if buf ! 1 \<noteq> COLON then (EBADMSG, hdr, w1)
                 else
                   (let c = buf ! 2
                    in if c < ZERO \<or> c > NINE then (EBADMSG, hdr, w1)
                       else
                         (let len = of_char c - of_char ZERO;
                              c = buf ! 3
                          in case header_loop conn len c w1 of (status, len, w2) \<Rightarrow>
                               if status \<noteq> 0 then (status, hdr, w2)
                               else (0, \<lparr>msg_len = len, msg_type = type\<rparr>, w2)))))"

text \<open>
  \<open>recv_message_data conn len w\<close>: the status, the bytes stored at \<^verbatim>\<open>data\<close> and the new
  state.
\<close>

definition recv_message_data :: "yak_connection \<Rightarrow> int \<Rightarrow> world \<Rightarrow> int \<times> char list \<times> world" where
  "recv_message_data conn len w =
     (case (if len > 0 then
              (case recv_data conn len w of (nbytes, data, w1) \<Rightarrow>
                 (if nbytes \<noteq> len
                  then Some (if nbytes < 0 then get_errno w1 EIO else EBADMSG)
                  else None, data, w1))
            else (None, [], w)) of
        (Some status, data, w1) \<Rightarrow> (status, data, w1)
      | (None, data, w1) \<Rightarrow>
          (case recv_data conn 1 w1 of (nbytes, buf, w2) \<Rightarrow>
             if nbytes \<noteq> 1 then ((if nbytes < 0 then get_errno w2 EIO else EBADMSG), data, w2)
             else if buf ! 0 \<noteq> NL then (EBADMSG, data, w2)
             else (0, data, w2)))"

subsection \<open>\<^verbatim>\<open>yak_recv_message_in_buffer\<close> and \<^verbatim>\<open>yak_recv_message\<close>\<close>

text \<open>
  \<^verbatim>\<open>yak.c\<close>, lines 359 to 481.
  What a receive function leaves at its output pointers: \<open>None\<close> for a pointer that is
  \<^verbatim>\<open>NULL\<close>, and otherwise the value stored there. For \<^verbatim>\<open>yak_recv_message_in_buffer\<close>
  the data are the bytes stored in the caller's buffer; for \<^verbatim>\<open>yak_recv_message\<close> they
  are the pointer \<^verbatim>\<open>*data\<close>, \<open>None\<close> for \<^verbatim>\<open>NULL\<close> and otherwise the allocated bytes.
\<close>

record 'd outputs =
  out_type :: "char option"
  out_data :: "'d option"
  out_len :: "int option"

definition with_outputs ::
  "'d outputs \<Rightarrow> int \<times> yak_connection option \<times> world
     \<Rightarrow> int \<times> yak_connection option \<times> 'd outputs \<times> world" where
  "with_outputs out r = (case r of (status, conn, w) \<Rightarrow> (status, conn, out, w))"

text \<open>
  The arguments \<open>type_ptr\<close>, \<open>data_ptr\<close> and \<open>len_ptr\<close> tell whether the pointers
  \<^verbatim>\<open>type\<close>, \<^verbatim>\<open>data\<close> and \<^verbatim>\<open>len\<close> are not \<^verbatim>\<open>NULL\<close>.
\<close>

definition yak_recv_message_in_buffer ::
  "yak_connection option \<Rightarrow> bool \<Rightarrow> bool \<Rightarrow> bool \<Rightarrow> int \<Rightarrow> world
     \<Rightarrow> int \<times> yak_connection option \<times> char list outputs \<times> world" where
  "yak_recv_message_in_buffer conn type_ptr data_ptr len_ptr maxlen w =
     (let out0 = \<lparr>out_type = (if type_ptr then Some NUL else None),
                  out_data = (if data_ptr then Some [] else None),
                  out_len = (if len_ptr then Some 0 else None)\<rparr>
      in case conn of
           None \<Rightarrow> (EFAULT, None, out0, w)
         | Some c \<Rightarrow>
             if sock c < 0 then (EBADF, conn, out0, w)
             else if maxlen < 0 then with_outputs out0 (goto_error conn EINVAL w)
             else if (\<not> data_ptr) \<and> maxlen > 0 then with_outputs out0 (goto_error conn EFAULT w)
             else
               (case recv_message_info c w of (status, msg, w1) \<Rightarrow>
                  if status \<noteq> 0 then with_outputs out0 (goto_error conn status w1)
                  else if msg_len msg > maxlen then with_outputs out0 (goto_error conn EMSGSIZE w1)
                  else
                    (case recv_message_data c (msg_len msg) w1 of (status, bytes, w2) \<Rightarrow>
                       (let out1 = out0\<lparr>out_data := (if data_ptr then Some bytes else None)\<rparr>
                        in if status \<noteq> 0 then with_outputs out1 (goto_error conn status w2)
                           else (0, conn,
                                 out1\<lparr>out_type := (if type_ptr then Some (msg_type msg) else None),
                                      out_len := (if len_ptr then Some (msg_len msg) else None)\<rparr>,
                                 w2)))))"

definition yak_recv_message ::
  "yak_connection option \<Rightarrow> bool \<Rightarrow> bool \<Rightarrow> bool \<Rightarrow> world
     \<Rightarrow> int \<times> yak_connection option \<times> char list option outputs \<times> world" where
  "yak_recv_message conn type_ptr data_ptr len_ptr w =
     (let out0 = \<lparr>out_type = (if type_ptr then Some NUL else None),
                  out_data = (if data_ptr then Some None else None),
                  out_len = (if len_ptr then Some 0 else None)\<rparr>
      in case conn of
           None \<Rightarrow> (EFAULT, None, out0, w)
         | Some c \<Rightarrow>
             if \<not> data_ptr then (EFAULT, conn, out0, w)
             else if sock c < 0 then (EBADF, conn, out0, w)
             else
               (case recv_message_info c w of (status, msg, w1) \<Rightarrow>
                  if status \<noteq> 0 then with_outputs out0 (goto_error conn status w1)
                  else
                    (let success = (\<lambda>out w'.
                           (0, conn,
                            out\<lparr>out_type := (if type_ptr then Some (msg_type msg) else None),
                                out_len := (if len_ptr then Some (msg_len msg) else None)\<rparr>,
                            w'))
                     in if msg_len msg > 0 then
                          (case alloc w1 of (ok, w2) \<Rightarrow>
                             if \<not> ok then with_outputs out0 (goto_error conn (get_errno w2 ENOMEM) w2)
                             else
                               (case recv_message_data c (msg_len msg) w2 of (status, buf, w3) \<Rightarrow>
                                  if status = 0 \<and> data_ptr
                                  then success (out0\<lparr>out_data := Some (Some buf)\<rparr>) w3
                                  else if status \<noteq> 0
                                  then with_outputs out0 (goto_error conn status w3)
                                  else success out0 w3))
                        else success out0 w1)))"

section \<open>Vocabulary of the properties\<close>

text \<open>
  A world in which nothing is pending and nothing fails (the resolver knows no host),
  and an open connection, as starting points for concrete runs.
\<close>

definition quiet :: world where
  "quiet = \<lparr>errno = 0, rx = [], recv_calls = 0, tx_plan = [], tx = [],
             close_fault = (\<lambda>fd. None), alloc_fault = None,
             resolver = (\<lambda>host service passive. []), socket_result = (\<lambda>ai. Inl EACCES),
             connect_fault = (\<lambda>ai. None), trace = []\<rparr>"

definition client :: yak_connection where
  "client = \<lparr>peer = Some ''localhost'', sock = 3, port = 4000\<rparr>"

text \<open>
  \<open>delivers evs bs\<close>: the peer sends exactly the bytes \<open>bs\<close>, cut into non-empty
  segments in any way, without a transport failure, and then closes the stream.
\<close>

fun delivers :: "rx_event list \<Rightarrow> char list \<Rightarrow> bool" where
  "delivers [] bs = (bs = [])"
| "delivers (RxFault e # evs) bs = False"
| "delivers (Segment s # evs) bs =
     (s \<noteq> [] \<and> take (length s) bs = s \<and> delivers evs (drop (length s) bs))"

text \<open>\<open>willing plan\<close>: every planned \<^verbatim>\<open>send\<close> takes at least one byte and none fails.\<close>

fun willing :: "tx_event list \<Rightarrow> bool" where
  "willing [] = True"
| "willing (Accept k # plan) = (k > 0 \<and> willing plan)"
| "willing (TxFault e # plan) = False"

text \<open>
  The length field of the wire format: the decimal digits of a number, most significant
  first, with no leading zero except for the number 0 itself; and the number that a
  string of digits denotes.
\<close>

definition is_digit :: "char \<Rightarrow> bool" where
  "is_digit ch = (ZERO \<le> ch \<and> ch \<le> NINE)"

definition digit_char :: "nat \<Rightarrow> char" where
  "digit_char d = char_of (48 + d)"

fun decimal :: "nat \<Rightarrow> string" where
  "decimal n = (if n < 10 then [digit_char n] else decimal (n div 10) @ [digit_char (n mod 10)])"

declare decimal.simps [simp del]

definition decimal_value :: "string \<Rightarrow> int" where
  "decimal_value ds = foldl (\<lambda>v ch. 10 * v + (of_char ch - 48)) 0 ds"

definition LONG_MAX :: int where
  "LONG_MAX = 2 ^ 63 - 1"

text \<open>
  The digits that the first loop of \<^verbatim>\<open>print_integer\<close> writes for \<open>r\<close>: least
  significant first, and none for 0.
\<close>

definition trail :: "int \<Rightarrow> string" where
  "trail r = (if r \<le> 0 then [] else rev (decimal (nat r)))"





section \<open>Closing a connection\<close>

lemma yak_close_closed:
  "yak_close (Some c) w = (s, conn', w') \<Longrightarrow> conn' = Some \<lparr>peer = None, sock = -1, port = 0\<rparr>"
  by (cases c) (auto simp: yak_close_def Let_def split: if_splits prod.splits)

lemma yak_close_again:
  "yak_close (Some \<lparr>peer = None, sock = -1, port = 0\<rparr>) w =
     (0, Some \<lparr>peer = None, sock = -1, port = 0\<rparr>, w)"
  by (simp add: yak_close_def)

lemma yak_close_world:
  "yak_close conn w = (s, conn', w') \<Longrightarrow>
   rx w' = rx w \<and> recv_calls w' = recv_calls w \<and> tx w' = tx w \<and> yak_is_open conn' = False"
  by (cases conn)
     (auto simp: yak_close_def Let_def close_fd_def yak_is_open_def
           split: if_splits prod.splits option.splits)

lemma goto_error_result:
  "goto_error conn st w = (s, conn', w') \<Longrightarrow>
   s = st \<and> rx w' = rx w \<and> recv_calls w' = recv_calls w \<and> tx w' = tx w \<and> yak_is_open conn' = False"
  using yak_close_world [of conn w]
  by (auto simp: goto_error_def split: prod.splits)

lemma goto_error_closes:
  "goto_error conn st w = (s, conn', w') \<Longrightarrow> yak_is_open conn' = False"
  using goto_error_result by blast

text \<open>
  C9, as the code has it. The claim says that every call of \<^verbatim>\<open>yak_close\<close> returns 0.
  The first call on an open connection returns the \<^verbatim>\<open>errno\<close> of \<^verbatim>\<open>close\<close> when that
  system call fails, as \<^verbatim>\<open>yak.h\<close> documents. What holds: a call on a \<^verbatim>\<open>NULL\<close> or
  already closed connection returns 0; a call on an open connection returns 0 unless
  \<^verbatim>\<open>close\<close> fails, and then its error code; after any call on a connection that is not
  \<^verbatim>\<open>NULL\<close> the connection is fully closed (\<^verbatim>\<open>sock == -1\<close>, \<^verbatim>\<open>peer == NULL\<close>,
  \<^verbatim>\<open>port == 0\<close>) and \<^verbatim>\<open>yak_is_open\<close> reports 0; and a second call in a row returns 0
  and changes nothing.
\<close>

theorem yak_close_twice:
  "(case yak_close conn w of (s1, conn1, w1) \<Rightarrow>
      (case yak_close conn1 w1 of (s2, conn2, w2) \<Rightarrow>
         s2 = 0 \<and> conn2 = conn1 \<and> w2 = w1 \<and> yak_is_open conn1 = False \<and>
         (conn = None \<longrightarrow> s1 = 0 \<and> conn1 = None) \<and>
         (\<forall>c. conn = Some c \<longrightarrow>
            conn1 = Some \<lparr>peer = None, sock = -1, port = 0\<rparr> \<and>
            (if sock c \<ge> 0
             then (case close_fault w (sock c) of None \<Rightarrow> s1 = 0 | Some e \<Rightarrow> s1 = e)
             else s1 = 0))))"
proof (cases conn)
  case None
  then show ?thesis by (simp add: yak_close_def yak_is_open_def)
next
  case (Some c)
  obtain s1 conn1 w1 where r: "yak_close (Some c) w = (s1, conn1, w1)"
    by (cases "yak_close (Some c) w") auto
  have c1: "conn1 = Some \<lparr>peer = None, sock = -1, port = 0\<rparr>"
    using r by (rule yak_close_closed)
  have st: "(if sock c \<ge> 0
             then (case close_fault w (sock c) of None \<Rightarrow> s1 = 0 | Some e \<Rightarrow> s1 = e)
             else s1 = 0)"
    using r
    by (auto simp: yak_close_def Let_def close_fd_def split: if_splits prod.splits option.splits)
  show ?thesis
    using Some r c1 st by (simp add: yak_close_again yak_is_open_def)
qed

text \<open>An open connection closed twice in the quiet world: both calls return 0.\<close>

theorem yak_close_twice_witness:
  "(case yak_close (Some client) quiet of (s1, conn1, w1) \<Rightarrow>
      (case yak_close conn1 w1 of (s2, conn2, w2) \<Rightarrow>
         s1 = 0 \<and> s2 = 0 \<and> conn2 = conn1 \<and> w2 = w1 \<and> yak_is_open conn1 = False \<and>
         conn1 = Some \<lparr>peer = None, sock = -1, port = 0\<rparr>))"
  using yak_close_twice [of "Some client" quiet]
  by (simp add: client_def quiet_def split: prod.splits)

text \<open>
  The claim C9 as stated fails: when \<^verbatim>\<open>close\<close> fails with \<^verbatim>\<open>EIO\<close>, the first call of
  \<^verbatim>\<open>yak_close\<close> on an open connection does not return 0.
\<close>

theorem yak_close_first_call_counterexample:
  "fst (yak_close (Some client) (quiet\<lparr>close_fault := (\<lambda>fd. Some EIO)\<rparr>)) \<noteq> 0"
  by (simp add: yak_close_def client_def quiet_def close_fd_def EIO_def)

section \<open>The decimal length field\<close>

text \<open>The digits of \<open>decimal\<close> are ASCII digits, and they denote the number.\<close>

lemma of_char_digit_char: "d < 10 \<Longrightarrow> of_char (digit_char d) = (48 + d :: nat)"
  by (simp add: digit_char_def)

lemma of_char_digit_char_int: "d < 10 \<Longrightarrow> of_char (digit_char d) = (48 + int d)"
proof -
  assume "d < 10"
  then have "int (of_char (digit_char d)) = int (48 + d)" by (simp only: of_char_digit_char)
  then show ?thesis by (simp add: of_nat_of_char)
qed

lemma is_digit_digit_char: "d < 10 \<Longrightarrow> is_digit (digit_char d)"
  by (simp add: is_digit_def less_eq_char_def of_char_digit_char ZERO_def NINE_def)

lemma is_digit_range: "is_digit ch \<Longrightarrow> 48 \<le> (of_char ch :: int) \<and> (of_char ch :: int) \<le> 57"
proof -
  assume "is_digit ch"
  then have "48 \<le> (of_char ch :: nat) \<and> (of_char ch :: nat) \<le> 57"
    by (simp add: is_digit_def less_eq_char_def ZERO_def NINE_def)
  then have "int 48 \<le> int (of_char ch) \<and> int (of_char ch) \<le> int 57"
    by (simp only: of_nat_le_iff)
  then show ?thesis by (simp add: of_nat_of_char)
qed

lemma is_digit_not_NL: "is_digit ch \<Longrightarrow> ch \<noteq> NL"
  by (auto simp: is_digit_def less_eq_char_def ZERO_def NINE_def NL_def)

lemma decimal_digits: "\<forall>ch\<in>set (decimal n). is_digit ch"
  by (induction n rule: decimal.induct)
     (subst decimal.simps, auto simp: is_digit_digit_char)

lemma decimal_nonempty: "decimal n \<noteq> []"
  by (subst decimal.simps) simp

lemma decimal_length_pos: "0 < length (decimal n)"
  by (induction n rule: decimal.induct) (subst decimal.simps, simp)

lemma decimal_value_snoc:
  "decimal_value (ds @ [ch]) = 10 * decimal_value ds + (of_char ch - 48)"
  by (simp add: decimal_value_def)

lemma decimal_value_decimal: "decimal_value (decimal n) = int n"
proof (induction n rule: decimal.induct)
  case (1 n)
  show ?case
  proof (cases "n < 10")
    case True
    then show ?thesis
      by (subst decimal.simps) (simp add: decimal_value_def of_char_digit_char_int)
  next
    case False
    with 1 have "decimal_value (decimal (n div 10)) = int (n div 10)" by simp
    with False show ?thesis
      by (subst decimal.simps) (simp add: decimal_value_snoc of_char_digit_char_int zdiv_int zmod_int)
  qed
qed

lemma digit_char_zero: "d < 10 \<Longrightarrow> digit_char d = ZERO \<longleftrightarrow> d = 0"
proof -
  assume d: "d < 10"
  have "digit_char d = ZERO \<longleftrightarrow> (of_char (digit_char d) :: nat) = of_char ZERO"
    by simp
  also have "\<dots> \<longleftrightarrow> d = 0" using d by (simp add: of_char_digit_char ZERO_def)
  finally show ?thesis .
qed

lemma decimal_no_leading_zero: "hd (decimal n) = ZERO \<Longrightarrow> n = 0"
proof (induction n rule: decimal.induct)
  case (1 n)
  show ?case
  proof (cases "n < 10")
    case True
    with "1.prems" show ?thesis
      by (subst (asm) decimal.simps) (simp add: digit_char_zero)
  next
    case False
    with "1.prems" have "hd (decimal (n div 10)) = ZERO"
      by (subst (asm) decimal.simps) (simp add: decimal_nonempty)
    with "1.IH" False have "n div 10 = 0" by simp
    with False show ?thesis by simp
  qed
qed

lemma decimal_value_zeros:
  "decimal_value (replicate k ZERO @ ds) = decimal_value ds"
proof -
  have "foldl (\<lambda>v ch. 10 * v + (of_char ch - 48)) (0::int) (replicate k ZERO) = 0"
    by (induction k) (simp_all add: ZERO_def)
  then show ?thesis by (simp add: decimal_value_def)
qed

lemma decimal_4: "decimal 4 = ''4''" by code_simp

lemma decimal_0: "decimal 0 = ''0''" by code_simp

text \<open>A number that a \<^verbatim>\<open>long\<close> can hold has at most 19 digits.\<close>

lemma decimal_length_bound:
  "0 < k \<Longrightarrow> n < 10 ^ k \<Longrightarrow> length (decimal n) \<le> k"
proof (induction k arbitrary: n)
  case 0
  then show ?case by simp
next
  case (Suc k)
  show ?case
  proof (cases "n < 10")
    case True
    then show ?thesis by (subst decimal.simps) simp
  next
    case False
    then have k: "0 < k" using Suc.prems by (cases k) auto
    have "n div 10 < 10 ^ k" using Suc.prems(2) by (simp add: less_mult_imp_div_less mult.commute)
    with Suc.IH k have "length (decimal (n div 10)) \<le> k" by blast
    with False show ?thesis by (subst decimal.simps) simp
  qed
qed

lemma decimal_length_long:
  assumes "int n \<le> LONG_MAX"
  shows "length (decimal n) \<le> 19"
proof -
  have "int n < 10 ^ 19" using assms by (simp add: LONG_MAX_def)
  then have "n < 10 ^ 19" by (metis of_nat_less_iff of_nat_numeral of_nat_power)
  then show ?thesis by (intro decimal_length_bound) simp_all
qed

text \<open>The accumulation of digits never decreases, and does not wrap below \<^verbatim>\<open>LONG_MAX\<close>.\<close>

lemma long_wrap_id: "0 \<le> x \<Longrightarrow> x \<le> LONG_MAX \<Longrightarrow> long_wrap x = x"
  by (simp add: long_wrap_def LONG_MAX_def)

lemma accumulate_mono:
  "\<forall>ch\<in>set ds. is_digit ch \<Longrightarrow> 0 \<le> (v::int) \<Longrightarrow>
   v \<le> foldl (\<lambda>v ch. 10 * v + (of_char ch - 48)) v ds"
proof (induction ds arbitrary: v)
  case Nil
  then show ?case by simp
next
  case (Cons d ds)
  from Cons.prems have "is_digit d" by simp
  then have dv: "0 \<le> (of_char d :: int) - 48" using is_digit_range [of d] by simp
  with Cons.prems have "0 \<le> 10 * v + (of_char d - 48)" by simp
  with Cons.IH [of "10 * v + (of_char d - 48)"] Cons.prems
  have "10 * v + (of_char d - 48) \<le> foldl (\<lambda>v ch. 10 * v + (of_char ch - 48)) (10 * v + (of_char d - 48)) ds"
    by simp
  with dv Cons.prems(2) show ?case by simp
qed

section \<open>\<^verbatim>\<open>print_integer\<close> writes the decimal digits\<close>

lemma rev_decimal_nat:
  "rev (decimal n) = digit_char (n mod 10) # (if n < 10 then [] else rev (decimal (n div 10)))"
  by (subst decimal.simps) simp

lemma rev_decimal:
  "0 \<le> v \<Longrightarrow> rev (decimal (nat v)) = digit_char (nat (v mod 10)) # trail (v div 10)"
proof -
  assume v: "0 \<le> v"
  have a: "nat v mod 10 = nat (v mod 10)" using v by (simp add: nat_mod_distrib)
  have b: "nat v div 10 = nat (v div 10)" using v by (simp add: nat_div_distrib)
  have c: "nat v < 10 \<longleftrightarrow> v div 10 \<le> 0" using v by auto
  show ?thesis
    unfolding rev_decimal_nat [of "nat v"] a b c trail_def by simp
qed

lemma trail_step:
  "0 < r \<Longrightarrow> trail r = digit_char (nat (r mod 10)) # trail (r div 10)"
  using rev_decimal [of r] by (simp add: trail_def)

lemma to_char_digit:
  "0 \<le> d \<Longrightarrow> to_char (of_char ZERO + d) = digit_char (nat d)"
proof -
  assume d: "0 \<le> d"
  have "of_char ZERO + d = int (48 + nat d)" using d by (simp add: ZERO_def)
  then show ?thesis unfolding to_char_def digit_char_def
    by (metis char_of_nat)
qed

lemma write_digits_spec:
  "0 \<le> r \<Longrightarrow> int (i + length (trail r)) < len \<Longrightarrow> len \<le> int (length buf) \<Longrightarrow>
   \<exists>buf'. write_digits buf len i r = Inr (i + length (trail r), buf') \<and>
          length buf' = length buf \<and>
          take (i + length (trail r) + 1) buf' = take (i + 1) buf @ trail r"
proof (induction buf len i r rule: write_digits.induct)
  case (1 buf len i r)
  show ?case
  proof (cases "r > 0")
    case False
    with "1.prems" have "r = 0" by simp
    then show ?thesis by (simp add: trail_def write_digits.simps)
  next
    case True
    let ?d = "digit_char (nat (r mod 10))"
    let ?buf1 = "buf[i + 1 := ?d]"
    have ts: "trail r = ?d # trail (r div 10)" using True by (rule trail_step)
    have wr: "to_char (of_char ZERO + r mod 10) = ?d"
      by (rule to_char_digit) simp
    have bound: "\<not> int (i + 1) \<ge> len" using "1.prems"(2) ts by simp
    have inb: "i + 1 < length buf" using "1.prems"(2,3) ts by simp
    have p1: "0 \<le> r div 10" using True by simp
    have p2: "int (i + 1 + length (trail (r div 10))) < len"
      using "1.prems"(2) ts by simp
    have p3: "len \<le> int (length ?buf1)" using "1.prems"(3) by simp
    from "1.IH" [OF True bound, unfolded wr, OF p1 p2 p3]
    obtain buf' where
      w: "write_digits ?buf1 len (i + 1) (r div 10) = Inr (i + 1 + length (trail (r div 10)), buf')"
      and l: "length buf' = length ?buf1"
      and t: "take (i + 1 + length (trail (r div 10)) + 1) buf' = take (i + 1 + 1) ?buf1 @ trail (r div 10)"
      by blast
    have t1: "take (i + 1 + 1) ?buf1 = take (i + 1) buf @ [?d]"
      using inb by (simp add: take_Suc_conv_app_nth)
    have "write_digits buf len i r = write_digits ?buf1 len (i + 1) (r div 10)"
      using True bound wr by (subst write_digits.simps) simp
    with w l t t1 ts show ?thesis by simp
  qed
qed

lemma reverse_digits_length [simp]:
  "length (reverse_digits buf j i) = length buf"
  by (induction buf j i rule: reverse_digits.induct)
     (subst reverse_digits.simps, simp add: Let_def)

lemma reverse_digits_nth:
  "i < length buf \<Longrightarrow> k < length buf \<Longrightarrow>
   reverse_digits buf j i ! k = (if j \<le> k \<and> k \<le> i then buf ! (i + j - k) else buf ! k)"
proof (induction buf j i arbitrary: k rule: reverse_digits.induct)
  case (1 buf j i)
  show ?case
  proof (cases "j < i")
    case False
    then have "reverse_digits buf j i = buf" by (subst reverse_digits.simps) simp
    moreover from False have "j \<le> k \<and> k \<le> i \<Longrightarrow> i + j - k = k" by auto
    ultimately show ?thesis by auto
  next
    case True
    let ?b = "buf[i := buf ! j, j := buf ! i]"
    have u: "reverse_digits buf j i = reverse_digits ?b (j + 1) (i - 1)"
      using True by (subst reverse_digits.simps) (simp add: Let_def)
    have "reverse_digits ?b (j + 1) (i - 1) ! k =
            (if j + 1 \<le> k \<and> k \<le> i - 1 then ?b ! (i - 1 + (j + 1) - k) else ?b ! k)"
      using "1.IH" [OF True refl, of k] "1.prems" by simp
    then show ?thesis
      using True "1.prems" by (auto simp: u nth_list_update)
  qed
qed

lemma reverse_digits_prefix:
  assumes "i < length buf"
  shows "take (i + 1) (reverse_digits buf 0 i) = rev (take (i + 1) buf)"
proof (rule nth_equalityI)
  show "length (take (i + 1) (reverse_digits buf 0 i)) = length (rev (take (i + 1) buf))"
    by simp
next
  fix k assume "k < length (take (i + 1) (reverse_digits buf 0 i))"
  then have k: "k \<le> i" using assms by simp
  then have "take (i + 1) (reverse_digits buf 0 i) ! k = buf ! (i - k)"
    using assms by (simp add: reverse_digits_nth)
  moreover have "rev (take (i + 1) buf) ! k = buf ! (i - k)"
  proof -
    have l: "length (take (i + 1) buf) = i + 1" using assms by simp
    have "rev (take (i + 1) buf) ! k = take (i + 1) buf ! (length (take (i + 1) buf) - Suc k)"
      using k l by (intro rev_nth) simp
    also have "\<dots> = take (i + 1) buf ! (i - k)" unfolding l by simp
    also have "\<dots> = buf ! (i - k)" by simp
    finally show ?thesis .
  qed
  ultimately show "take (i + 1) (reverse_digits buf 0 i) ! k = rev (take (i + 1) buf) ! k"
    by simp
qed

lemma print_integer_decimal:
  assumes v: "0 \<le> val" and fit: "int (length (decimal (nat val))) < len"
    and cap: "len \<le> int (length buf)"
  shows "\<exists>buf'. print_integer buf len val = (int (length (decimal (nat val))), buf') \<and>
           length buf' = length buf \<and>
           take (length (decimal (nat val))) buf' = decimal (nat val)"
proof -
  let ?n = "length (decimal (nat val))"
  let ?d = "digit_char (nat (val mod 10))"
  let ?buf0 = "buf[0 := ?d]"
  let ?k = "length (trail (val div 10))"
  have rd: "rev (decimal (nat val)) = ?d # trail (val div 10)" using v by (rule rev_decimal)
  then have n: "?n = ?k + 1"
    by (metis length_rev length_Cons Suc_eq_plus1)
  have cm: "c_mod val 10 = val mod 10" and cd: "c_div val 10 = val div 10"
    using v by (simp_all add: c_mod_def c_div_def minus_mult_div_eq_mod)
  have wr: "to_char (of_char ZERO + c_mod val 10) = ?d"
    unfolding cm by (rule to_char_digit) simp
  have len2: "\<not> len < 2" using fit n by simp
  have "\<exists>buf1. write_digits ?buf0 len 0 (val div 10) = Inr (0 + ?k, buf1) \<and>
          length buf1 = length ?buf0 \<and>
          take (0 + ?k + 1) buf1 = take (0 + 1) ?buf0 @ trail (val div 10)"
    using v fit cap n by (intro write_digits_spec) simp_all
  then obtain buf1 where
    w: "write_digits ?buf0 len 0 (val div 10) = Inr (?k, buf1)"
    and l: "length buf1 = length buf"
    and t: "take (?k + 1) buf1 = take 1 ?buf0 @ trail (val div 10)"
    by auto
  have nonempty: "buf \<noteq> []" using cap len2 by auto
  then have t0: "take 1 ?buf0 = [?d]"
    by (cases buf) simp_all
  have kin: "?k < length (buf1[?k + 1 := NUL])" using l cap fit n by simp
  have res: "print_integer buf len val = (int (?k + 1), reverse_digits (buf1[?k + 1 := NUL]) 0 ?k)"
    using v len2 w fit n unfolding print_integer_def wr by (simp add: cd Let_def)
  have "take (?k + 1) (reverse_digits (buf1[?k + 1 := NUL]) 0 ?k) = rev (take (?k + 1) (buf1[?k + 1 := NUL]))"
    using kin by (rule reverse_digits_prefix)
  also have "\<dots> = rev (take (?k + 1) buf1)" by simp
  also have "\<dots> = decimal (nat val)" using t t0 rd by (metis append_Cons append_Nil rev_rev_ident)
  finally have "take ?n (reverse_digits (buf1[?k + 1 := NUL]) 0 ?k) = decimal (nat val)"
    using n by simp
  with res l n show ?thesis by simp
qed

lemma print_integer_80: "print_integer (replicate 8 NUL) 8 80 = (2, ''80'' @ replicate 6 NUL)"
  by code_simp

section \<open>Sending a message\<close>

text \<open>On a willing socket \<^verbatim>\<open>send_data\<close> delivers all the bytes, in order.\<close>

lemma send_loop_willing:
  "willing (tx_plan w) \<Longrightarrow> off + m \<le> length data \<Longrightarrow>
   \<exists>plan. send_loop c data off (int m) w =
            (int (off + m), w\<lparr>tx_plan := plan, tx := tx w @ take m (drop off data)\<rparr>) \<and>
          willing plan"
proof (induction m arbitrary: off w rule: less_induct)
  case (less m)
  show ?case
  proof (cases "m = 0")
    case True
    have "send_loop c data off (int 0) w = (int off, w)"
      by (subst send_loop.simps) simp
    with True less.prems(1) show ?thesis
      by (intro exI [of _ "tx_plan w"]) simp
  next
    case False
    then have pos: "int m > 0" by simp
    show ?thesis
    proof (cases "tx_plan w")
      case Nil
      let ?w1 = "w\<lparr>tx := tx w @ take m (drop off data)\<rparr>"
      have s: "send (sock c) (drop off data) (int m) w = (int m, ?w1)"
        using Nil by (simp add: send_def)
      have "send_loop c data off (int m) w = send_loop c data (off + m) 0 ?w1"
        using pos s False by (subst send_loop.simps) simp
      also have "\<dots> = (int (off + m), ?w1)"
        by (subst send_loop.simps) simp
      finally show ?thesis using Nil
        by (intro exI [of _ "[]"]) simp
    next
      case (Cons ev plan)
      with less.prems(1) obtain k where ev: "ev = Accept k" and k: "k > 0" and wp: "willing plan"
        by (cases ev) auto
      define n where "n = min k m"
      let ?w1 = "w\<lparr>tx_plan := plan, tx := tx w @ take n (drop off data)\<rparr>"
      have n: "0 < n" "n \<le> m" using k False by (simp_all add: n_def)
      have s: "send (sock c) (drop off data) (int m) w = (int n, ?w1)"
        using Cons ev by (simp add: send_def Let_def min_def n_def)
      have step: "send_loop c data off (int m) w = send_loop c data (off + n) (int (m - n)) ?w1"
        using pos s n by (subst send_loop.simps) (simp add: of_nat_diff)
      have "m - n < m" using n by simp
      moreover have "willing (tx_plan ?w1)" using wp by simp
      moreover have "off + n + (m - n) \<le> length data" using less.prems(2) n by simp
      ultimately obtain plan' where
        r: "send_loop c data (off + n) (int (m - n)) ?w1 =
              (int (off + n + (m - n)),
               ?w1\<lparr>tx_plan := plan', tx := tx ?w1 @ take (m - n) (drop (off + n) data)\<rparr>)"
        and wp': "willing plan'"
        using less.IH [of "m - n" ?w1 "off + n"] by blast
      have "take n (drop off data) @ take (m - n) (drop (off + n) data) = take m (drop off data)"
        using n take_add [of n "m - n" "drop off data"] by (simp add: add.commute)
      with step r wp' n show ?thesis
        by (intro exI [of _ plan']) simp
    qed
  qed
qed

lemma send_data_willing:
  "willing (tx_plan w) \<Longrightarrow> m \<le> length data \<Longrightarrow>
   \<exists>plan. send_data c data (int m) w =
            (int m, w\<lparr>tx_plan := plan, tx := tx w @ take m data\<rparr>) \<and> willing plan"
  using send_loop_willing [of w 0 m data c] by (simp add: send_data_def)

lemma header_prefix_bytes:
  assumes "length digits = 30" "nd \<le> 19" "take nd digits = ds"
  shows "take (nd + 3) (([t, COLON] @ digits)[nd + 2 := NL, nd + 3 := NUL]) = [t, COLON] @ ds @ [NL]"
proof -
  have "take (nd + 3) (([t, COLON] @ digits)[nd + 2 := NL, nd + 3 := NUL])
          = take (Suc (nd + 2)) (([t, COLON] @ digits)[nd + 2 := NL])"
    by (simp add: numeral_3_eq_3)
  also have "\<dots> = take (nd + 2) ([t, COLON] @ digits) @ [NL]"
    using assms(1,2) by (subst take_Suc_conv_app_nth) simp_all
  also have "\<dots> = [t, COLON] @ ds @ [NL]"
    using assms(3) by simp
  finally show ?thesis .
qed

lemma header0_split:
  "(replicate 32 NUL)[0 := t, 1 := COLON] = [t, COLON] @ replicate 30 NUL"
  by (simp add: numeral_eq_Suc)

lemma yak_send_message_wire_aux:
  assumes op: "sock c \<ge> 0" and wl: "willing (tx_plan w)"
    and fit: "int (length p) \<le> LONG_MAX"
    and data: "data = Some p \<or> (data = None \<and> p = [])"
  shows "\<exists>plan. yak_send_message (Some c) t data (int (length p)) w =
           (0, Some c,
            w\<lparr>tx_plan := plan,
              tx := tx w @ [t, COLON] @ decimal (length p) @ [NL] @ p @ [NL]\<rparr>)"
proof -
  let ?L = "length p"
  let ?nd = "length (decimal ?L)"
  have nd: "?nd \<le> 19" using fit by (rule decimal_length_long)
  have "\<exists>buf'. print_integer (replicate 30 NUL) 30 (int ?L) = (int (length (decimal (nat (int ?L)))), buf') \<and>
           length buf' = length (replicate 30 NUL) \<and>
           take (length (decimal (nat (int ?L)))) buf' = decimal (nat (int ?L))"
    using nd by (intro print_integer_decimal) simp_all
  then obtain digits where
    pi: "print_integer (replicate 30 NUL) 30 (int ?L) = (int ?nd, digits)"
    and dl: "length digits = 30" and dt: "take ?nd digits = decimal ?L"
    by auto
  have pi': "print_integer (drop 2 ((replicate 32 NUL)[0 := t, 1 := COLON])) (32 - 2) (int ?L)
               = (int ?nd, digits)"
    using pi by (simp add: header0_split)
  define header where
    "header = (take 2 ((replicate 32 NUL)[0 := t, 1 := COLON]) @ digits)
                [nat (int ?nd + 2) := NL, nat (int ?nd + 3) := NUL]"
  have header_eq: "header = ([t, COLON] @ digits)[?nd + 2 := NL, ?nd + 3 := NUL]"
    unfolding header_def header0_split by (simp add: nat_add_distrib)
  have hp: "take (?nd + 3) header = [t, COLON] @ decimal ?L @ [NL]"
    unfolding header_eq using dl nd dt by (rule header_prefix_bytes)
  have "length header = length ([t, COLON] @ digits)"
    unfolding header_eq by (simp only: length_list_update)
  then have hl: "?nd + 3 \<le> length header" using dl nd by simp
  obtain plan1 where
    s1: "send_data c header (int (?nd + 3)) w =
           (int (?nd + 3), w\<lparr>tx_plan := plan1, tx := tx w @ take (?nd + 3) header\<rparr>)"
    and w1: "willing plan1"
    using send_data_willing [OF wl hl, of c] by blast
  let ?w1 = "w\<lparr>tx_plan := plan1, tx := tx w @ [t, COLON] @ decimal ?L @ [NL]\<rparr>"
  have s1': "send_data c header (int ?nd + 3) w = (int ?nd + 3, ?w1)"
    using s1 hp by simp
  have ww1: "willing (tx_plan ?w1)" using w1 by simp
  show ?thesis
  proof (cases "p = []")
    case True
    from send_data_willing [OF ww1, of 1 "[NL]" c]
    obtain plan3 where
      s3: "send_data c [NL] 1 ?w1 = (1, ?w1\<lparr>tx_plan := plan3, tx := tx ?w1 @ [NL]\<rparr>)"
      by auto
    have "yak_send_message (Some c) t data (int ?L) w =
            (0, Some c, ?w1\<lparr>tx_plan := plan3, tx := tx ?w1 @ [NL]\<rparr>)"
      unfolding yak_send_message_def Let_def pi' prod.case header_def [symmetric]
      using op nd True s1' s3 by simp
    then show ?thesis using True by (intro exI [of _ plan3]) simp
  next
    case False
    with data have d: "data = Some p" by simp
    from send_data_willing [OF ww1, of ?L p c]
    obtain plan2 where
      s2: "send_data c p (int ?L) ?w1 = (int ?L, ?w1\<lparr>tx_plan := plan2, tx := tx ?w1 @ p\<rparr>)"
      and w2: "willing plan2" by auto
    let ?w2 = "?w1\<lparr>tx_plan := plan2, tx := tx ?w1 @ p\<rparr>"
    have "willing (tx_plan ?w2)" using w2 by simp
    from send_data_willing [OF this, of 1 "[NL]" c]
    obtain plan3 where
      s3: "send_data c [NL] 1 ?w2 = (1, ?w2\<lparr>tx_plan := plan3, tx := tx ?w2 @ [NL]\<rparr>)"
      by auto
    have "yak_send_message (Some c) t data (int ?L) w =
            (0, Some c, ?w2\<lparr>tx_plan := plan3, tx := tx ?w2 @ [NL]\<rparr>)"
      unfolding yak_send_message_def Let_def pi' prod.case header_def [symmetric]
      using op nd False d s1' s2 s3 by simp
    then show ?thesis by (intro exI [of _ plan3]) simp
  qed
qed

text \<open>
  C6. On an open connection whose socket takes what it is given, \<^verbatim>\<open>yak_send_message\<close>
  with a payload \<open>p\<close> of a length that a \<^verbatim>\<open>long\<close> can hold (also with \<^verbatim>\<open>data == NULL\<close>
  when \<open>p\<close> is empty) returns 0 and sends exactly the type byte, \<^verbatim>\<open>':'\<close>, the decimal
  length, \<^verbatim>\<open>'\n'\<close>, the payload and a final \<^verbatim>\<open>'\n'\<close>, the last one also when the
  length is 0. The decimal length is a non-empty string of digits that denotes the
  length and starts with \<^verbatim>\<open>'0'\<close> only for the length 0.
\<close>

theorem yak_send_message_wire:
  assumes "sock c \<ge> 0" and "willing (tx_plan w)"
    and "int (length p) \<le> LONG_MAX"
    and "data = Some p \<or> (data = None \<and> p = [])"
  shows "(\<exists>plan. yak_send_message (Some c) t data (int (length p)) w =
           (0, Some c,
            w\<lparr>tx_plan := plan,
              tx := tx w @ [t, COLON] @ decimal (length p) @ [NL] @ p @ [NL]\<rparr>)) \<and>
         decimal (length p) \<noteq> [] \<and>
         (\<forall>ch\<in>set (decimal (length p)). is_digit ch) \<and>
         decimal_value (decimal (length p)) = int (length p) \<and>
         (hd (decimal (length p)) = ZERO \<longrightarrow> length p = 0)"
  using yak_send_message_wire_aux [OF assms, of t]
    decimal_nonempty [of "length p"] decimal_digits [of "length p"]
    decimal_value_decimal [of "length p"] decimal_no_leading_zero [of "length p"]
  by blast

text \<open>
  The type \<^verbatim>\<open>'X'\<close> with the payload \<^verbatim>\<open>ping\<close> is sent as \<^verbatim>\<open>X:4\nping\n\<close> (here in
  three calls of \<^verbatim>\<open>send\<close> for the header), and the type \<^verbatim>\<open>'A'\<close> with no payload as
  \<^verbatim>\<open>A:0\n\n\<close>.
\<close>

theorem yak_send_message_wire_witness:
  "sock client \<ge> 0 \<and> willing [Accept 2, Accept 1] \<and> int (length ''ping'') \<le> LONG_MAX \<and>
   (case yak_send_message (Some client) CHR ''X'' (Some ''ping'') 4
           (quiet\<lparr>tx_plan := [Accept 2, Accept 1]\<rparr>) of
      (status, conn', w') \<Rightarrow> status = 0 \<and> conn' = Some client \<and> tx w' = ''X:4'' @ [NL] @ ''ping'' @ [NL]) \<and>
   (case yak_send_message (Some client) CHR ''A'' None 0 quiet of
      (status, conn', w') \<Rightarrow> status = 0 \<and> conn' = Some client \<and> tx w' = ''A:0'' @ [NL, NL]) \<and>
   decimal 4 = ''4'' \<and> decimal 0 = ''0''"
proof -
  have a: "sock client \<ge> 0" by (simp add: client_def)
  have b: "willing (tx_plan (quiet\<lparr>tx_plan := [Accept 2, Accept 1]\<rparr>))" by simp
  have b': "willing (tx_plan quiet)" by (simp add: quiet_def)
  have c: "int (length ''ping'') \<le> LONG_MAX" by (simp add: LONG_MAX_def)
  have c': "int (length ([] :: string)) \<le> LONG_MAX" by (simp add: LONG_MAX_def)
  have l4: "length ''ping'' = 4" by simp
  from yak_send_message_wire [OF a b c, of "Some ''ping''" "CHR ''X''"]
  have x: "\<exists>plan. yak_send_message (Some client) CHR ''X'' (Some ''ping'') 4
                    (quiet\<lparr>tx_plan := [Accept 2, Accept 1]\<rparr>) =
             (0, Some client,
              quiet\<lparr>tx_plan := plan, tx := tx quiet @ [CHR ''X'', COLON] @ ''4'' @ [NL] @ ''ping'' @ [NL]\<rparr>)"
    unfolding l4 decimal_4 by simp
  from yak_send_message_wire [OF a b' c', of None "CHR ''A''"]
  have y: "\<exists>plan. yak_send_message (Some client) CHR ''A'' None 0 quiet =
             (0, Some client,
              quiet\<lparr>tx_plan := plan, tx := tx quiet @ [CHR ''A'', COLON] @ ''0'' @ [NL] @ [] @ [NL]\<rparr>)"
    unfolding list.size decimal_0 by simp
  have tq: "tx quiet = []" by (simp add: quiet_def)
  from x y show ?thesis
    using a c by (auto simp: tq COLON_def decimal_4 decimal_0)
qed

section \<open>Receiving a message\<close>

text \<open>
  From a stream that delivers \<open>bs\<close>, \<^verbatim>\<open>recv_data\<close> for \<open>m\<close> bytes returns the first
  \<open>m\<close> bytes of \<open>bs\<close>, or all of \<open>bs\<close> when it is shorter, however the stream is cut
  into segments.
\<close>

lemma recv_step_delivers:
  assumes d: "delivers (rx w) bs" and bs: "bs \<noteq> []" and m: "0 < m"
  shows "\<exists>k evs. recv fd (int m) w = (int k, take k bs, w\<lparr>rx := evs, recv_calls := recv_calls w + 1\<rparr>) \<and>
           0 < k \<and> k \<le> m \<and> k \<le> length bs \<and> delivers evs (drop k bs)"
proof (cases "rx w")
  case Nil
  with d bs show ?thesis by simp
next
  case (Cons ev evs')
  with d obtain s where ev: "ev = Segment s" and s: "s \<noteq> []"
    and pre: "take (length s) bs = s" and rest: "delivers evs' (drop (length s) bs)"
    by (cases ev) auto
  define k where "k = min (length s) m"
  have k: "0 < k" "k \<le> m" "k \<le> length s" using s m by (simp_all add: k_def)
  have "length (take (length s) bs) = length s" using pre by simp
  then have sl: "length s \<le> length bs" by simp
  have tk: "take k s = take k bs" using pre k(3) by (metis min.absorb1 take_take)
  let ?evs = "if k < length s then Segment (drop k s) # evs' else evs'"
  have r: "recv fd (int m) w = (int k, take k bs, w\<lparr>rx := ?evs, recv_calls := recv_calls w + 1\<rparr>)"
    using Cons ev tk by (simp add: recv_def Let_def k_def)
  have "delivers ?evs (drop k bs)"
  proof (cases "k < length s")
    case False
    with k(3) have "k = length s" by simp
    with rest show ?thesis by simp
  next
    case True
    have "take (length s - k) (drop k bs) = drop k (take (length s) bs)"
      by (simp add: drop_take)
    then have "take (length (drop k s)) (drop k bs) = drop k s" using pre by simp
    moreover have "drop (length (drop k s)) (drop k bs) = drop (length s) bs"
      using True by simp
    ultimately show ?thesis using True rest by simp
  qed
  with r k sl show ?thesis by (intro exI [of _ k] exI [of _ ?evs]) simp
qed

lemma recv_loop_delivers:
  "delivers (rx w) bs \<Longrightarrow>
   \<exists>evs n. recv_loop c got (int m) w =
              (int (length got + min m (length bs)), got @ take m bs, w\<lparr>rx := evs, recv_calls := n\<rparr>) \<and>
            delivers evs (drop m bs)"
proof (induction m arbitrary: got w bs rule: less_induct)
  case (less m)
  show ?case
  proof (cases "m = 0")
    case True
    have "recv_loop c got (int 0) w = (int (length got), got, w)"
      by (subst recv_loop.simps) simp
    with True less.prems show ?thesis
      by (intro exI [of _ "rx w"] exI [of _ "recv_calls w"]) simp
  next
    case False
    then have pos: "0 < int m" by simp
    show ?thesis
    proof (cases "bs = []")
      case True
      with less.prems have "rx w = []"
      proof (cases "rx w")
        case (Cons ev evs')
        with less.prems True show ?thesis by (cases ev) auto
      qed simp
      then have r: "recv (sock c) (int m) w = (0, [], w\<lparr>recv_calls := recv_calls w + 1\<rparr>)"
        by (simp add: recv_def Let_def)
      have "recv_loop c got (int m) w = (int (length got), got, w\<lparr>recv_calls := recv_calls w + 1\<rparr>)"
        using pos r by (subst recv_loop.simps) simp
      with True \<open>rx w = []\<close> show ?thesis
        by (intro exI [of _ "[]"] exI [of _ "recv_calls w + 1"]) simp
    next
      case ne: False
      from recv_step_delivers [OF less.prems ne, of m "sock c"] False
      obtain k evs where
        r: "recv (sock c) (int m) w = (int k, take k bs, w\<lparr>rx := evs, recv_calls := recv_calls w + 1\<rparr>)"
        and k: "0 < k" "k \<le> m" "k \<le> length bs" and d: "delivers evs (drop k bs)"
        by auto
      let ?w1 = "w\<lparr>rx := evs, recv_calls := recv_calls w + 1\<rparr>"
      have step: "recv_loop c got (int m) w = recv_loop c (got @ take k bs) (int (m - k)) ?w1"
        using pos r k by (subst recv_loop.simps) (simp add: of_nat_diff)
      have "m - k < m" using k by simp
      moreover have "delivers (rx ?w1) (drop k bs)" using d by simp
      ultimately obtain evs' n where
        r': "recv_loop c (got @ take k bs) (int (m - k)) ?w1 =
               (int (length (got @ take k bs) + min (m - k) (length (drop k bs))),
                (got @ take k bs) @ take (m - k) (drop k bs), ?w1\<lparr>rx := evs', recv_calls := n\<rparr>)"
        and d': "delivers evs' (drop (m - k) (drop k bs))"
        using less.IH [of "m - k" ?w1 "drop k bs" "got @ take k bs"] by blast
      have a: "take k bs @ take (m - k) (drop k bs) = take m bs"
        using k take_add [of k "m - k" bs] by simp
      have b: "length (got @ take k bs) + min (m - k) (length (drop k bs)) = length got + min m (length bs)"
        using k by (auto simp: min_def)
      have c: "drop (m - k) (drop k bs) = drop m bs" using k by simp
      show ?thesis
        using step r' d' a b c
        by (intro exI [of _ evs'] exI [of _ n]) simp
    qed
  qed
qed

lemma recv_data_delivers:
  "delivers (rx w) (xs @ ys) \<Longrightarrow>
   \<exists>evs n. recv_data c (int (length xs)) w = (int (length xs), xs, w\<lparr>rx := evs, recv_calls := n\<rparr>) \<and>
            delivers evs ys"
  using recv_loop_delivers [of w "xs @ ys" c "[]" "length xs"] by (simp add: recv_data_def)

lemma recv_data_short:
  "delivers (rx w) xs \<Longrightarrow> length xs < m \<Longrightarrow>
   \<exists>evs n. recv_data c (int m) w = (int (length xs), xs, w\<lparr>rx := evs, recv_calls := n\<rparr>)"
  using recv_loop_delivers [of w xs c "[]" m] by (auto simp: recv_data_def min_def)







text \<open>The loop over the digits of the header, up to the newline or the end of the stream.\<close>

lemma header_loop_digits:
  "\<forall>ch\<in>set ds. is_digit ch \<Longrightarrow> 0 \<le> (v::int) \<Longrightarrow>
   foldl (\<lambda>v ch. 10 * v + (of_char ch - 48)) v ds \<le> LONG_MAX \<Longrightarrow>
   delivers (rx w) (tl (ds @ [NL]) @ rest) \<Longrightarrow>
   \<exists>evs n. header_loop c v (hd (ds @ [NL])) w =
              (0, foldl (\<lambda>v ch. 10 * v + (of_char ch - 48)) v ds, w\<lparr>rx := evs, recv_calls := n\<rparr>) \<and>
            delivers evs rest"
proof (induction ds arbitrary: v w)
  case Nil
  have "header_loop c v NL w = (0, v, w)" by (subst header_loop.simps) simp
  with Nil.prems show ?case
    by (intro exI [of _ "rx w"] exI [of _ "recv_calls w"]) simp
next
  case (Cons d ds)
  let ?f = "\<lambda>v ch. 10 * v + ((of_char ch :: int) - 48)"
  let ?v' = "10 * v + ((of_char d :: int) - 48)"
  from Cons.prems(1) have dg: "is_digit d" and dsg: "\<forall>ch\<in>set ds. is_digit ch" by simp_all
  have dv: "0 \<le> (of_char d :: int) - 48" using is_digit_range [OF dg] by simp
  have v'0: "0 \<le> ?v'" using dv Cons.prems(2) by simp
  have "?v' \<le> foldl ?f ?v' ds" using dsg v'0 by (rule accumulate_mono)
  with Cons.prems(3) have v'max: "?v' \<le> LONG_MAX" by simp
  have tenv: "0 \<le> 10 * v" "10 * v \<le> LONG_MAX" using Cons.prems(2) v'max dv by simp_all
  have wrap: "long_wrap ((of_char d - of_char ZERO) + long_wrap (10 * v)) = ?v'"
    using tenv v'0 v'max by (simp add: long_wrap_id ZERO_def add.commute)
  have nolt: "\<not> ?v' < v" using dv Cons.prems(2) by simp
  have dNL: "d \<noteq> NL" using dg by (rule is_digit_not_NL)
  have dr: "d \<ge> ZERO \<and> d \<le> NINE" using dg by (simp add: is_digit_def)
  have "[hd (ds @ [NL])] @ tl (ds @ [NL]) = ds @ [NL]" by simp
  then have "[hd (ds @ [NL])] @ (tl (ds @ [NL]) @ rest) = tl ((d # ds) @ [NL]) @ rest"
    by (metis append_assoc append_Cons list.sel(3))
  with Cons.prems(4) have "delivers (rx w) ([hd (ds @ [NL])] @ (tl (ds @ [NL]) @ rest))"
    by (simp only:)
  from recv_data_delivers [OF this, of c]
  obtain evs1 n1 where
    r: "recv_data c 1 w = (1, [hd (ds @ [NL])], w\<lparr>rx := evs1, recv_calls := n1\<rparr>)"
    and d1: "delivers evs1 (tl (ds @ [NL]) @ rest)"
    by auto
  let ?w1 = "w\<lparr>rx := evs1, recv_calls := n1\<rparr>"
  have step: "header_loop c v (hd ((d # ds) @ [NL])) w = header_loop c ?v' (hd (ds @ [NL])) ?w1"
    using dNL dr nolt r by (subst header_loop.simps) (simp add: wrap Let_def)
  have "delivers (rx ?w1) (tl (ds @ [NL]) @ rest)" using d1 by simp
  from Cons.IH [OF dsg v'0 _ this] Cons.prems(3)
  obtain evs n where
    "header_loop c ?v' (hd (ds @ [NL])) ?w1 = (0, foldl ?f ?v' ds, ?w1\<lparr>rx := evs, recv_calls := n\<rparr>)"
    and "delivers evs rest"
    by auto
  with step show ?case
    by (intro exI [of _ evs] exI [of _ n]) simp
qed


text \<open>A well-formed header and a well-formed payload are decoded as they were sent.\<close>

lemma recv_message_info_header:
  assumes ne: "ds \<noteq> []" and dg: "\<forall>ch\<in>set ds. is_digit ch"
    and fit: "decimal_value ds \<le> LONG_MAX"
    and st: "delivers (rx w) (t # COLON # ds @ NL # rest)"
  shows "\<exists>evs n. recv_message_info c w =
           (0, \<lparr>msg_len = decimal_value ds, msg_type = t\<rparr>, w\<lparr>rx := evs, recv_calls := n\<rparr>) \<and>
         delivers evs rest"
proof -
  let ?f = "\<lambda>v ch. 10 * v + ((of_char ch :: int) - 48)"
  from ne obtain d0 ds' where ds: "ds = d0 # ds'" by (cases ds) auto
  let ?x = "hd (ds' @ [NL])"
  have d0: "is_digit d0" and ds': "\<forall>ch\<in>set ds'. is_digit ch" using dg ds by simp_all
  have "[?x] @ tl (ds' @ [NL]) = ds' @ [NL]" by simp
  then have "[t, COLON, d0, ?x] @ (tl (ds' @ [NL]) @ rest) = t # COLON # ds @ NL # rest"
    unfolding ds by (metis append_Cons append_Nil append_assoc)
  with st have "delivers (rx w) ([t, COLON, d0, ?x] @ (tl (ds' @ [NL]) @ rest))"
    by (simp only:)
  from recv_data_delivers [OF this, of c]
  obtain evs1 n1 where
    r: "recv_data c 4 w = (4, [t, COLON, d0, ?x], w\<lparr>rx := evs1, recv_calls := n1\<rparr>)"
    and d1: "delivers evs1 (tl (ds' @ [NL]) @ rest)"
    by auto
  let ?w1 = "w\<lparr>rx := evs1, recv_calls := n1\<rparr>"
  let ?v0 = "(of_char d0 :: int) - 48"
  have v0: "0 \<le> ?v0" using is_digit_range [OF d0] by simp
  have val: "foldl ?f ?v0 ds' = decimal_value ds" by (simp add: decimal_value_def ds)
  have "delivers (rx ?w1) (tl (ds' @ [NL]) @ rest)" using d1 by simp
  from header_loop_digits [OF ds' v0 _ this, of c] fit val
  obtain evs n where
    h: "header_loop c ?v0 ?x ?w1 = (0, decimal_value ds, ?w1\<lparr>rx := evs, recv_calls := n\<rparr>)"
    and d2: "delivers evs rest"
    by auto
  have dr: "\<not> (d0 < ZERO \<or> d0 > NINE)" using d0 by (auto simp: is_digit_def)
  have "recv_message_info c w =
          (0, \<lparr>msg_len = decimal_value ds, msg_type = t\<rparr>, w\<lparr>rx := evs, recv_calls := n\<rparr>)"
    unfolding recv_message_info_def using r dr h by (simp add: Let_def ZERO_def)
  with d2 show ?thesis by blast
qed

lemma recv_message_data_payload:
  assumes st: "delivers (rx w) (p @ NL # rest)"
  shows "\<exists>evs n. recv_message_data c (int (length p)) w = (0, p, w\<lparr>rx := evs, recv_calls := n\<rparr>) \<and>
           delivers evs rest"
proof -
  have "\<exists>evs1 n1. (if int (length p) > 0 then
              (case recv_data c (int (length p)) w of (nbytes, data, w1) \<Rightarrow>
                 (if nbytes \<noteq> int (length p)
                  then Some (if nbytes < 0 then get_errno w1 EIO else EBADMSG)
                  else None, data, w1))
            else (None, [], w)) = (None, p, w\<lparr>rx := evs1, recv_calls := n1\<rparr>) \<and> delivers evs1 (NL # rest)"
  proof (cases "p = []")
    case True
    with st show ?thesis by (intro exI [of _ "rx w"] exI [of _ "recv_calls w"]) simp
  next
    case False
    from recv_data_delivers [OF st, of c]
    obtain evs1 n1 where
      "recv_data c (int (length p)) w = (int (length p), p, w\<lparr>rx := evs1, recv_calls := n1\<rparr>)"
      and "delivers evs1 (NL # rest)" by auto
    with False show ?thesis by (intro exI [of _ evs1] exI [of _ n1]) simp
  qed
  then obtain evs1 n1 where
    a: "(if int (length p) > 0 then
              (case recv_data c (int (length p)) w of (nbytes, data, w1) \<Rightarrow>
                 (if nbytes \<noteq> int (length p)
                  then Some (if nbytes < 0 then get_errno w1 EIO else EBADMSG)
                  else None, data, w1))
            else (None, [], w)) = (None, p, w\<lparr>rx := evs1, recv_calls := n1\<rparr>)"
    and d1: "delivers evs1 ([NL] @ rest)" by auto
  let ?w1 = "w\<lparr>rx := evs1, recv_calls := n1\<rparr>"
  have "delivers (rx ?w1) ([NL] @ rest)" using d1 by simp
  from recv_data_delivers [OF this, of c]
  obtain evs n where
    b: "recv_data c 1 ?w1 = (1, [NL], ?w1\<lparr>rx := evs, recv_calls := n\<rparr>)"
    and d2: "delivers evs rest" by auto
  have "recv_message_data c (int (length p)) w = (0, p, w\<lparr>rx := evs, recv_calls := n\<rparr>)"
    unfolding recv_message_data_def a using b by simp
  with d2 show ?thesis by blast
qed

text \<open>An error of \<^verbatim>\<open>recv_message_info\<close> is the error of the receive functions, which close.\<close>

lemma yak_recv_message_header_error:
  assumes "sock c \<ge> 0" "recv_message_info c w = (st, msg, w1)" "st \<noteq> 0"
  shows "\<exists>conn' out w'. yak_recv_message (Some c) type_ptr True len_ptr w = (st, conn', out, w') \<and>
           yak_is_open conn' = False \<and> rx w' = rx w1 \<and> recv_calls w' = recv_calls w1"
proof -
  obtain s conn' w' where g: "goto_error (Some c) st w1 = (s, conn', w')"
    by (cases "goto_error (Some c) st w1") auto
  from goto_error_result [OF g] g assms show ?thesis
    by (simp add: yak_recv_message_def with_outputs_def Let_def)
qed

lemma yak_recv_message_in_buffer_header_error:
  assumes "sock c \<ge> 0" "0 \<le> maxlen" "data_ptr \<or> maxlen = 0"
    "recv_message_info c w = (st, msg, w1)" "st \<noteq> 0"
  shows "\<exists>conn' out w'.
           yak_recv_message_in_buffer (Some c) type_ptr data_ptr len_ptr maxlen w = (st, conn', out, w') \<and>
           yak_is_open conn' = False \<and> rx w' = rx w1 \<and> recv_calls w' = recv_calls w1"
proof -
  obtain s conn' w' where g: "goto_error (Some c) st w1 = (s, conn', w')"
    by (cases "goto_error (Some c) st w1") auto
  from goto_error_result [OF g] g assms show ?thesis
    by (auto simp: yak_recv_message_in_buffer_def with_outputs_def Let_def)
qed

text \<open>
  C1. Let \<^verbatim>\<open>yak_send_message\<close> send the type \<open>t\<close> and the payload \<open>p\<close> (of a length
  that a \<^verbatim>\<open>long\<close> can hold, \<open>p\<close> possibly empty) on a willing socket, and let the
  receiving side be delivered the bytes that were sent, in segments cut in any way,
  followed by any bytes \<open>rest\<close>. Then the send returns 0, and the decoder succeeds and
  returns \<open>t\<close> and \<open>p\<close>: \<^verbatim>\<open>recv_message_info\<close> followed by \<^verbatim>\<open>recv_message_data\<close>
  consume exactly the frame; so does \<^verbatim>\<open>yak_recv_message_in_buffer\<close> with any bound
  that admits the length; and \<^verbatim>\<open>yak_recv_message\<close> (when \<^verbatim>\<open>malloc\<close> succeeds) returns
  \<open>t\<close>, the length and the payload, as \<^verbatim>\<open>NULL\<close> when \<open>p\<close> is empty, in which case it
  does not call \<^verbatim>\<open>recv_message_data\<close> and leaves the final newline in the stream.
\<close>

theorem message_round_trip:
  assumes op: "sock c \<ge> 0" and wl: "willing (tx_plan w)"
    and fit: "int (length p) \<le> LONG_MAX"
    and snd: "yak_send_message (Some c) t (Some p) (int (length p)) w = (s, conn1, w1)"
    and op': "sock c' \<ge> 0" and al: "alloc_fault wr = None"
    and st: "delivers (rx wr) (drop (length (tx w)) (tx w1) @ rest)"
  shows "s = 0 \<and>
    (\<exists>wa wb. recv_message_info c' wr = (0, \<lparr>msg_len = int (length p), msg_type = t\<rparr>, wa) \<and>
             recv_message_data c' (int (length p)) wa = (0, p, wb) \<and> delivers (rx wb) rest) \<and>
    (\<exists>wr'. yak_recv_message (Some c') True True True wr =
             (0, Some c',
              \<lparr>out_type = Some t, out_data = Some (if p = [] then None else Some p),
               out_len = Some (int (length p))\<rparr>, wr') \<and>
           delivers (rx wr') (if p = [] then NL # rest else rest)) \<and>
    (\<forall>maxlen\<ge>int (length p).
       \<exists>wr'. yak_recv_message_in_buffer (Some c') True True True maxlen wr =
               (0, Some c',
                \<lparr>out_type = Some t, out_data = Some p, out_len = Some (int (length p))\<rparr>, wr') \<and>
             delivers (rx wr') rest)"
proof -
  let ?L = "int (length p)"
  from yak_send_message_wire_aux [OF op wl fit, of "Some p" t] snd
  obtain plan where s0: "s = 0"
    and w1: "w1 = w\<lparr>tx_plan := plan, tx := tx w @ [t, COLON] @ decimal (length p) @ [NL] @ p @ [NL]\<rparr>"
    by auto
  have "drop (length (tx w)) (tx w1) @ rest = t # COLON # decimal (length p) @ NL # (p @ NL # rest)"
    unfolding w1 by simp
  with st have st': "delivers (rx wr) (t # COLON # decimal (length p) @ NL # (p @ NL # rest))"
    by (simp only:)
  have dv: "decimal_value (decimal (length p)) \<le> LONG_MAX"
    using fit by (simp add: decimal_value_decimal)
  from recv_message_info_header [OF decimal_nonempty decimal_digits dv st', of c']
  obtain evs n where
    i: "recv_message_info c' wr =
          (0, \<lparr>msg_len = ?L, msg_type = t\<rparr>, wr\<lparr>rx := evs, recv_calls := n\<rparr>)"
    and d1: "delivers evs (p @ NL # rest)"
    by (auto simp: decimal_value_decimal)
  let ?wa = "wr\<lparr>rx := evs, recv_calls := n\<rparr>"
  have "delivers (rx ?wa) (p @ NL # rest)" using d1 by simp
  from recv_message_data_payload [OF this, of c']
  obtain evs' n' where
    d: "recv_message_data c' ?L ?wa = (0, p, wr\<lparr>rx := evs', recv_calls := n'\<rparr>)"
    and d2: "delivers evs' rest"
    by auto
  let ?wb = "wr\<lparr>rx := evs', recv_calls := n'\<rparr>"
  have a: "alloc ?wa = (True, ?wa)" using al by (simp add: alloc_def)
  have part1: "\<exists>wa wb. recv_message_info c' wr = (0, \<lparr>msg_len = ?L, msg_type = t\<rparr>, wa) \<and>
             recv_message_data c' ?L wa = (0, p, wb) \<and> delivers (rx wb) rest"
    using i d d2 by (intro exI [of _ ?wa] exI [of _ ?wb]) simp
  have part2: "\<exists>wr'. yak_recv_message (Some c') True True True wr =
             (0, Some c',
              \<lparr>out_type = Some t, out_data = Some (if p = [] then None else Some p),
               out_len = Some ?L\<rparr>, wr') \<and>
           delivers (rx wr') (if p = [] then NL # rest else rest)"
  proof (cases "p = []")
    case True
    with i op' have "yak_recv_message (Some c') True True True wr =
             (0, Some c', \<lparr>out_type = Some t, out_data = Some None, out_len = Some 0\<rparr>, ?wa)"
      by (simp add: yak_recv_message_def Let_def)
    with True d1 show ?thesis by (intro exI [of _ ?wa]) simp
  next
    case False
    with i op' a d have "yak_recv_message (Some c') True True True wr =
             (0, Some c', \<lparr>out_type = Some t, out_data = Some (Some p), out_len = Some ?L\<rparr>, ?wb)"
      by (simp add: yak_recv_message_def Let_def)
    with False d2 show ?thesis by (intro exI [of _ ?wb]) simp
  qed
  have part3: "\<forall>maxlen\<ge>?L.
       \<exists>wr'. yak_recv_message_in_buffer (Some c') True True True maxlen wr =
               (0, Some c', \<lparr>out_type = Some t, out_data = Some p, out_len = Some ?L\<rparr>, wr') \<and>
             delivers (rx wr') rest"
  proof (intro allI impI)
    fix maxlen assume m: "?L \<le> maxlen"
    with i op' d have "yak_recv_message_in_buffer (Some c') True True True maxlen wr =
               (0, Some c', \<lparr>out_type = Some t, out_data = Some p, out_len = Some ?L\<rparr>, ?wb)"
      by (simp add: yak_recv_message_in_buffer_def Let_def)
    with d2 show "\<exists>wr'. yak_recv_message_in_buffer (Some c') True True True maxlen wr =
               (0, Some c', \<lparr>out_type = Some t, out_data = Some p, out_len = Some ?L\<rparr>, wr') \<and>
             delivers (rx wr') rest"
      by (intro exI [of _ ?wb]) simp
  qed
  from s0 part1 part2 part3 show ?thesis by blast
qed

text \<open>The frame \<^verbatim>\<open>X:4\nping\n\<close>, sent and then received in three segments.\<close>

theorem message_round_trip_witness:
  "sock client \<ge> 0 \<and> willing (tx_plan quiet) \<and> int (length ''ping'') \<le> LONG_MAX \<and>
   alloc_fault quiet = None \<and>
   (case yak_send_message (Some client) CHR ''X'' (Some ''ping'') 4 quiet of
      (s, conn1, w1) \<Rightarrow>
        s = 0 \<and> tx w1 = ''X:4'' @ [NL] @ ''ping'' @ [NL] \<and>
        delivers [Segment ''X:'', Segment (''4'' @ [NL] @ ''pi''), Segment (''ng'' @ [NL])] (tx w1) \<and>
        (case yak_recv_message (Some client) True True True
                (quiet\<lparr>rx := [Segment ''X:'', Segment (''4'' @ [NL] @ ''pi''), Segment (''ng'' @ [NL])]\<rparr>) of
           (status, conn', out, w') \<Rightarrow>
             status = 0 \<and> out_type out = Some CHR ''X'' \<and> out_data out = Some (Some ''ping'') \<and>
             out_len out = Some 4))"
proof -
  let ?evs = "[Segment ''X:'', Segment (''4'' @ [NL] @ ''pi''), Segment (''ng'' @ [NL])]"
  let ?wr = "quiet\<lparr>rx := ?evs\<rparr>"
  obtain s conn1 w1 where
    snd: "yak_send_message (Some client) CHR ''X'' (Some ''ping'') (int (length ''ping'')) quiet = (s, conn1, w1)"
    by (cases "yak_send_message (Some client) CHR ''X'' (Some ''ping'') (int (length ''ping'')) quiet") auto
  have a: "sock client \<ge> 0" by (simp add: client_def)
  have b: "willing (tx_plan quiet)" by (simp add: quiet_def)
  have c: "int (length ''ping'') \<le> LONG_MAX" by (simp add: LONG_MAX_def)
  have al: "alloc_fault ?wr = None" by (simp add: quiet_def)
  have l4: "length ''ping'' = 4" by simp
  from yak_send_message_wire_aux [OF a b c, of "Some ''ping''" "CHR ''X''"] snd
  have tx1: "tx w1 = ''X:4'' @ [NL] @ ''ping'' @ [NL]"
    unfolding l4 decimal_4 by (auto simp: quiet_def COLON_def)
  have d: "delivers (rx ?wr) (drop (length (tx quiet)) (tx w1) @ [])"
    unfolding tx1 by (simp add: quiet_def)
  from message_round_trip [OF a b c snd a al d] tx1 snd d
  show ?thesis
    using a b c by (auto simp: quiet_def)
qed

text \<open>
  C10, as the code has it. The claim has every header with leading zeros succeed. The
  digits after the zeros go through the overflow check like any others, so this holds
  for the lengths that a \<^verbatim>\<open>long\<close> can hold: a header \<open>t\<close> \<^verbatim>\<open>':'\<close> digits \<^verbatim>\<open>'\n'\<close>
  whose digits start with one or more \<^verbatim>\<open>'0'\<close> and denote a number up to \<^verbatim>\<open>LONG_MAX\<close>
  is accepted by \<^verbatim>\<open>recv_message_info\<close>: it succeeds, consumes exactly the header and
  returns the type and the number that the digits denote, which is the number denoted
  without the leading zeros.
\<close>

theorem leading_zeros_accepted:
  assumes "0 < k" and "\<forall>ch\<in>set ds. is_digit ch"
    and "decimal_value (replicate k ZERO @ ds) \<le> LONG_MAX"
    and "delivers (rx w) (t # COLON # (replicate k ZERO @ ds) @ NL # rest)"
  shows "(\<exists>w'. recv_message_info c w =
                 (0, \<lparr>msg_len = decimal_value (replicate k ZERO @ ds), msg_type = t\<rparr>, w') \<and>
               delivers (rx w') rest) \<and>
         decimal_value (replicate k ZERO @ ds) = decimal_value ds"
proof -
  have ne: "replicate k ZERO @ ds \<noteq> []" using assms(1) by simp
  have "is_digit ZERO" by (simp add: is_digit_def ZERO_def NINE_def)
  with assms(2) have dg: "\<forall>ch\<in>set (replicate k ZERO @ ds). is_digit ch" by auto
  from recv_message_info_header [OF ne dg assms(3,4), of c]
  obtain evs n where
    "recv_message_info c w =
       (0, \<lparr>msg_len = decimal_value (replicate k ZERO @ ds), msg_type = t\<rparr>, w\<lparr>rx := evs, recv_calls := n\<rparr>)"
    and "delivers evs rest" by auto
  then have "\<exists>w'. recv_message_info c w =
                 (0, \<lparr>msg_len = decimal_value (replicate k ZERO @ ds), msg_type = t\<rparr>, w') \<and>
               delivers (rx w') rest"
    by (intro exI [of _ "w\<lparr>rx := evs, recv_calls := n\<rparr>"]) simp
  then show ?thesis using decimal_value_zeros by blast
qed

text \<open>The header \<^verbatim>\<open>T:007\n\<close> is accepted with the length 7.\<close>

theorem leading_zeros_accepted_witness:
  "(0::nat) < 2 \<and> is_digit CHR ''7'' \<and> decimal_value (replicate 2 ZERO @ ''7'') \<le> LONG_MAX \<and>
   delivers [Segment (''T:007'' @ [NL] @ ''abcdefg'' @ [NL])]
     (CHR ''T'' # COLON # (replicate 2 ZERO @ ''7'') @ NL # (''abcdefg'' @ [NL])) \<and>
   fst (recv_message_info client (quiet\<lparr>rx := [Segment (''T:007'' @ [NL] @ ''abcdefg'' @ [NL])]\<rparr>)) = 0 \<and>
   fst (snd (recv_message_info client (quiet\<lparr>rx := [Segment (''T:007'' @ [NL] @ ''abcdefg'' @ [NL])]\<rparr>)))
     = \<lparr>msg_len = 7, msg_type = CHR ''T''\<rparr>"
proof -
  let ?w = "quiet\<lparr>rx := [Segment (''T:007'' @ [NL] @ ''abcdefg'' @ [NL])]\<rparr>"
  have a: "(0::nat) < 2" by simp
  have b: "\<forall>ch\<in>set ''7''. is_digit ch" by (simp add: is_digit_def ZERO_def NINE_def)
  have v: "decimal_value (replicate 2 ZERO @ ''7'') = 7"
    by (simp add: decimal_value_def ZERO_def numeral_2_eq_2)
  have c: "decimal_value (replicate 2 ZERO @ ''7'') \<le> LONG_MAX"
    unfolding v by (simp add: LONG_MAX_def)
  have d: "delivers (rx ?w) (CHR ''T'' # COLON # (replicate 2 ZERO @ ''7'') @ NL # (''abcdefg'' @ [NL]))"
    by (simp add: COLON_def ZERO_def numeral_2_eq_2)
  from leading_zeros_accepted [OF a b c d, of client]
  show ?thesis using b c d unfolding v by auto
qed

text \<open>
  The claim C10 as stated fails: the header \<^verbatim>\<open>T:09223372036854775808\n\<close> has a leading
  zero, and \<^verbatim>\<open>recv_message_info\<close> fails on it with \<^verbatim>\<open>EOVERFLOW\<close>.
\<close>

theorem leading_zeros_counterexample:
  "fst (recv_message_info client
          (quiet\<lparr>rx := [Segment (''T:09223372036854775808'' @ [NL])]\<rparr>)) = EOVERFLOW \<and>
   EOVERFLOW \<noteq> 0"
  by code_simp

section \<open>Overflow of the length field\<close>

text \<open>
  C3 at an input where the code departs from it: the header
  \<^verbatim>\<open>T:21000000000000000000\n\<close> declares a length above \<^verbatim>\<open>LONG_MAX\<close>; the accumulation
  wraps around to 2553255926290448384, which is not below the previous value
  2100000000000000000, so the check lets it pass and \<^verbatim>\<open>recv_message_info\<close> succeeds
  with the wrapped length.
\<close>

theorem length_field_wraps_unnoticed:
  "(case recv_message_info client
           (quiet\<lparr>rx := [Segment (''T:21000000000000000000'' @ [NL])]\<rparr>) of
      (status, msg, w') \<Rightarrow>
        status = 0 \<and> msg_len msg = 2553255926290448384 \<and> msg_type msg = CHR ''T'' \<and>
        decimal_value ''21000000000000000000'' > LONG_MAX)"
  by code_simp

section \<open>Errors of the decoder\<close>

text \<open>
  C7. When the first four bytes of the stream have been received and the second is not
  \<^verbatim>\<open>':'\<close> or the third is not an ASCII digit, \<^verbatim>\<open>recv_message_info\<close> fails with
  \<^verbatim>\<open>EBADMSG\<close> in the state that the four bytes left, and both receive functions (with
  valid arguments) return \<^verbatim>\<open>EBADMSG\<close> and close the connection without another call
  of \<^verbatim>\<open>recv\<close>: no byte after the fourth is consumed, no payload is read.
\<close>

theorem malformed_header_rejected:
  assumes "sock c \<ge> 0" and "recv_data c 4 w = (4, buf, w1)"
    and "buf ! 1 \<noteq> COLON \<or> buf ! 2 < ZERO \<or> buf ! 2 > NINE"
  shows "recv_message_info c w = (EBADMSG, \<lparr>msg_len = 0, msg_type = NUL\<rparr>, w1) \<and>
    (\<exists>conn' out w'. yak_recv_message (Some c) type_ptr True len_ptr w = (EBADMSG, conn', out, w') \<and>
        yak_is_open conn' = False \<and> rx w' = rx w1 \<and> recv_calls w' = recv_calls w1) \<and>
    (0 \<le> maxlen \<and> (data_ptr \<or> maxlen = 0) \<longrightarrow>
      (\<exists>conn' out w'.
         yak_recv_message_in_buffer (Some c) type_ptr data_ptr len_ptr maxlen w = (EBADMSG, conn', out, w') \<and>
         yak_is_open conn' = False \<and> rx w' = rx w1 \<and> recv_calls w' = recv_calls w1))"
proof -
  have i: "recv_message_info c w = (EBADMSG, \<lparr>msg_len = 0, msg_type = NUL\<rparr>, w1)"
    using assms(2,3) by (auto simp: recv_message_info_def Let_def)
  have nz: "EBADMSG \<noteq> 0" by (simp add: EBADMSG_def)
  from yak_recv_message_header_error [OF assms(1) i nz]
    yak_recv_message_in_buffer_header_error [OF assms(1) _ _ i nz]
    i
  show ?thesis by blast
qed

text \<open>The stream \<^verbatim>\<open>T;4\nabcd\n\<close>: one call of \<^verbatim>\<open>recv\<close>, and \<^verbatim>\<open>abcd\n\<close> is left.\<close>

theorem malformed_header_rejected_witness:
  "sock client \<ge> 0 \<and>
   recv_data client 4 (quiet\<lparr>rx := [Segment (''T;4'' @ [NL] @ ''abcd'' @ [NL])]\<rparr>)
     = (4, ''T;4'' @ [NL], quiet\<lparr>rx := [Segment (''abcd'' @ [NL])], recv_calls := 1\<rparr>) \<and>
   (''T;4'' @ [NL]) ! 1 \<noteq> COLON \<and>
   fst (recv_message_info client (quiet\<lparr>rx := [Segment (''T;4'' @ [NL] @ ''abcd'' @ [NL])]\<rparr>)) = EBADMSG \<and>
   (case yak_recv_message (Some client) True True True
           (quiet\<lparr>rx := [Segment (''T;4'' @ [NL] @ ''abcd'' @ [NL])]\<rparr>) of
      (status, conn', out, w') \<Rightarrow>
        status = EBADMSG \<and> yak_is_open conn' = False \<and> rx w' = [Segment (''abcd'' @ [NL])] \<and>
        recv_calls w' = 1)"
proof -
  let ?w = "quiet\<lparr>rx := [Segment (''T;4'' @ [NL] @ ''abcd'' @ [NL])]\<rparr>"
  let ?w1 = "quiet\<lparr>rx := [Segment (''abcd'' @ [NL])], recv_calls := 1\<rparr>"
  have a: "sock client \<ge> 0" by (simp add: client_def)
  have r: "recv_data client 4 ?w = (4, ''T;4'' @ [NL], ?w1)"
    by (simp add: recv_data_def recv_loop.simps [of _ _ 4] recv_loop.simps [of _ _ 0]
          recv_def Let_def quiet_def)
  have b: "(''T;4'' @ [NL]) ! 1 \<noteq> COLON \<or> (''T;4'' @ [NL]) ! 2 < ZERO \<or> (''T;4'' @ [NL]) ! 2 > NINE"
    by (simp add: COLON_def)
  from malformed_header_rejected [OF a r b, of True True 0 True]
  show ?thesis using a r by (auto simp: COLON_def quiet_def)
qed

text \<open>
  When \<^verbatim>\<open>recv_message_info\<close> has returned a length above the bound,
  \<^verbatim>\<open>yak_recv_message_in_buffer\<close> fails with \<^verbatim>\<open>EMSGSIZE\<close> in the state that the header
  left, but for the closing.
\<close>

lemma recv_in_buffer_too_large:
  assumes "sock c \<ge> 0" and "0 \<le> maxlen" and "data_ptr \<or> maxlen = 0"
    and "recv_message_info c w = (0, msg, w1)" and "msg_len msg > maxlen"
  shows "\<exists>conn' w'.
           yak_recv_message_in_buffer (Some c) type_ptr data_ptr len_ptr maxlen w =
             (EMSGSIZE, conn',
              \<lparr>out_type = (if type_ptr then Some NUL else None),
               out_data = (if data_ptr then Some [] else None),
               out_len = (if len_ptr then Some 0 else None)\<rparr>, w') \<and>
           yak_is_open conn' = False \<and> rx w' = rx w1 \<and> recv_calls w' = recv_calls w1"
proof -
  obtain s conn' w' where g: "goto_error (Some c) EMSGSIZE w1 = (s, conn', w')"
    by (cases "goto_error (Some c) EMSGSIZE w1") auto
  from goto_error_result [OF g] g assms show ?thesis
    by (auto simp: yak_recv_message_in_buffer_def with_outputs_def Let_def)
qed

text \<open>
  C5, as the code has it. The claim has every declared length above the bound fail with
  \<^verbatim>\<open>EMSGSIZE\<close>. A declared length that a \<^verbatim>\<open>long\<close> cannot hold is above every bound,
  and the header fails before the bound is looked at. What holds: on an open
  connection, with a bound \<open>maxlen\<close> that is not negative and a buffer (which may be
  \<^verbatim>\<open>NULL\<close> when \<open>maxlen\<close> is 0), when the incoming frame has a well-formed header
  that declares a length up to \<^verbatim>\<open>LONG_MAX\<close> and above \<open>maxlen\<close>,
  \<^verbatim>\<open>yak_recv_message_in_buffer\<close> fails with \<^verbatim>\<open>EMSGSIZE\<close>, stores nothing,
  and closes the connection; the stream is as the header left it and \<^verbatim>\<open>recv\<close> is not
  called again, so all the bytes after the header are still to be delivered: no
  payload byte is read.
\<close>

theorem bounded_receive_too_large:
  assumes op: "sock c \<ge> 0" and m0: "0 \<le> maxlen" and dp: "data_ptr \<or> maxlen = 0"
    and ne: "ds \<noteq> []" and dg: "\<forall>ch\<in>set ds. is_digit ch"
    and fit: "decimal_value ds \<le> LONG_MAX" and big: "decimal_value ds > maxlen"
    and st: "delivers (rx w) (t # COLON # ds @ NL # rest)"
  shows "\<exists>conn' w' w1.
           recv_message_info c w = (0, \<lparr>msg_len = decimal_value ds, msg_type = t\<rparr>, w1) \<and>
           yak_recv_message_in_buffer (Some c) type_ptr data_ptr len_ptr maxlen w =
             (EMSGSIZE, conn',
              \<lparr>out_type = (if type_ptr then Some NUL else None),
               out_data = (if data_ptr then Some [] else None),
               out_len = (if len_ptr then Some 0 else None)\<rparr>, w') \<and>
           yak_is_open conn' = False \<and> rx w' = rx w1 \<and> recv_calls w' = recv_calls w1 \<and>
           delivers (rx w') rest"
proof -
  from recv_message_info_header [OF ne dg fit st, of c]
  obtain evs n where
    i: "recv_message_info c w =
          (0, \<lparr>msg_len = decimal_value ds, msg_type = t\<rparr>, w\<lparr>rx := evs, recv_calls := n\<rparr>)"
    and d: "delivers evs rest" by blast
  let ?w1 = "w\<lparr>rx := evs, recv_calls := n\<rparr>"
  have "msg_len \<lparr>msg_len = decimal_value ds, msg_type = t\<rparr> > maxlen" using big by simp
  from recv_in_buffer_too_large [OF op m0 dp i this, of type_ptr len_ptr]
  obtain conn' w' where
    "yak_recv_message_in_buffer (Some c) type_ptr data_ptr len_ptr maxlen w =
             (EMSGSIZE, conn',
              \<lparr>out_type = (if type_ptr then Some NUL else None),
               out_data = (if data_ptr then Some [] else None),
               out_len = (if len_ptr then Some 0 else None)\<rparr>, w')"
    and "yak_is_open conn' = False" and "rx w' = rx ?w1" and "recv_calls w' = recv_calls ?w1"
    by blast
  with i d show ?thesis
    by (intro exI [of _ conn'] exI [of _ w'] exI [of _ ?w1]) simp
qed

text \<open>A declared length of 5 with \<open>maxlen = 4\<close>: the five bytes and the newline are left.\<close>

theorem bounded_receive_too_large_witness:
  "sock client \<ge> 0 \<and> is_digit CHR ''5'' \<and> decimal_value ''5'' \<le> LONG_MAX \<and> decimal_value ''5'' > 4 \<and>
   delivers [Segment ''X:'', Segment (''5'' @ [NL] @ ''hello'' @ [NL])]
     (CHR ''X'' # COLON # ''5'' @ NL # (''hello'' @ [NL])) \<and>
   (case yak_recv_message_in_buffer (Some client) True True True 4
           (quiet\<lparr>rx := [Segment ''X:'', Segment (''5'' @ [NL] @ ''hello'' @ [NL])]\<rparr>) of
      (status, conn', out, w') \<Rightarrow>
        status = EMSGSIZE \<and> yak_is_open conn' = False \<and> delivers (rx w') (''hello'' @ [NL]) \<and>
        out_data out = Some [])"
proof -
  let ?w = "quiet\<lparr>rx := [Segment ''X:'', Segment (''5'' @ [NL] @ ''hello'' @ [NL])]\<rparr>"
  have a: "sock client \<ge> 0" by (simp add: client_def)
  have b: "\<forall>ch\<in>set ''5''. is_digit ch" by (simp add: is_digit_def ZERO_def NINE_def)
  have v: "decimal_value ''5'' = 5" by (simp add: decimal_value_def)
  have c: "decimal_value ''5'' \<le> LONG_MAX" unfolding v by (simp add: LONG_MAX_def)
  have e: "decimal_value ''5'' > 4" unfolding v by simp
  have d: "delivers (rx ?w) (CHR ''X'' # COLON # ''5'' @ NL # (''hello'' @ [NL]))"
    by (simp add: COLON_def)
  from bounded_receive_too_large [OF a _ _ _ b c e d, of True True True]
  show ?thesis using a b c e d by auto
qed

text \<open>
  The claim C5 as stated fails: with \<open>maxlen = 4\<close> the declared length
  9223372036854775808 fails with \<^verbatim>\<open>EOVERFLOW\<close>, not with \<^verbatim>\<open>EMSGSIZE\<close>.
\<close>

theorem bounded_receive_counterexample:
  "(case yak_recv_message_in_buffer (Some client) True True True 4
           (quiet\<lparr>rx := [Segment (''T:9223372036854775808'' @ [NL] @ ''abcd'' @ [NL])]\<rparr>) of
      (status, conn', out, w') \<Rightarrow> status = EOVERFLOW \<and> status \<noteq> EMSGSIZE) \<and>
   decimal_value ''9223372036854775808'' > 4"
  by code_simp




section \<open>Errors that close the connection\<close>

text \<open>
  Whenever \<^verbatim>\<open>yak_send_message\<close> or \<^verbatim>\<open>yak_recv_message_in_buffer\<close> returns an error,
  and whenever \<^verbatim>\<open>yak_recv_message\<close> called with a \<^verbatim>\<open>data\<close> that is not \<^verbatim>\<open>NULL\<close> does,
  the connection is not open afterwards.
\<close>

lemma yak_send_message_error_closes:
  assumes "yak_send_message conn t data len w = (s, conn', w')" and "s \<noteq> 0"
  shows "yak_is_open conn' = False"
proof (cases conn)
  case None
  with assms show ?thesis by (simp add: yak_send_message_def yak_is_open_def)
next
  case (Some c)
  show ?thesis
  proof (cases "sock c < 0")
    case True
    with Some assms show ?thesis by (auto simp: yak_send_message_def yak_is_open_def)
  next
    case False
    with Some assms show ?thesis
      unfolding yak_send_message_def Let_def
      by (auto split: if_splits prod.splits option.splits dest: goto_error_closes)
  qed
qed

lemma yak_recv_message_in_buffer_error_closes:
  assumes "yak_recv_message_in_buffer conn type_ptr data_ptr len_ptr maxlen w = (s, conn', out, w')"
    and "s \<noteq> 0"
  shows "yak_is_open conn' = False"
proof (cases conn)
  case None
  with assms show ?thesis by (simp add: yak_recv_message_in_buffer_def yak_is_open_def Let_def)
next
  case (Some c)
  show ?thesis
  proof (cases "sock c < 0")
    case True
    with Some assms show ?thesis
      by (auto simp: yak_recv_message_in_buffer_def yak_is_open_def Let_def)
  next
    case False
    with Some assms show ?thesis
      unfolding yak_recv_message_in_buffer_def Let_def with_outputs_def
      by (auto split: if_splits prod.splits option.splits dest: goto_error_closes)
  qed
qed

lemma yak_recv_message_error_closes:
  assumes "yak_recv_message conn type_ptr True len_ptr w = (s, conn', out, w')"
    and "s \<noteq> 0"
  shows "yak_is_open conn' = False"
proof (cases conn)
  case None
  with assms show ?thesis by (simp add: yak_recv_message_def yak_is_open_def Let_def)
next
  case (Some c)
  show ?thesis
  proof (cases "sock c < 0")
    case True
    with Some assms show ?thesis
      by (auto simp: yak_recv_message_def yak_is_open_def Let_def)
  next
    case False
    with Some assms show ?thesis
      unfolding yak_recv_message_def Let_def with_outputs_def
      by (auto split: if_splits prod.splits option.splits dest: goto_error_closes)
  qed
qed

text \<open>
  C2 at the input where the code departs from it: \<^verbatim>\<open>yak_recv_message\<close> on an open
  connection with \<^verbatim>\<open>data == NULL\<close> returns \<^verbatim>\<open>EFAULT\<close> and leaves the connection open,
  where the claim (and the note in \<^verbatim>\<open>yak.h\<close>) has it closed.
\<close>

theorem yak_recv_message_null_data_stays_open:
  "(case yak_recv_message (Some client) True False True quiet of
      (status, conn', out, w') \<Rightarrow>
        status = EFAULT \<and> status \<noteq> 0 \<and> yak_is_open conn' \<and> w' = quiet)"
  by (simp add: yak_recv_message_def client_def yak_is_open_def EFAULT_def)

section \<open>Connecting\<close>

text \<open>
  C4, as the code has it. The claim has \<^verbatim>\<open>yak_connect\<close> reject an empty host and a
  port out of range with an invalid-argument code, before any name resolution. The code
  checks the port only: with a port below 0 or above 65535 \<^verbatim>\<open>yak_connect\<close> fails, sets
  \<^verbatim>\<open>errno\<close> to \<^verbatim>\<open>EINVAL\<close>, resolves no name and creates no socket, and the connection
  is closed. An empty host is passed to \<^verbatim>\<open>getaddrinfo\<close> like any other: with the port
  80 the resolver is asked for the host \<^verbatim>\<open>""\<close> and the service \<^verbatim>\<open>"80"\<close>, and when it
  finds no address \<^verbatim>\<open>yak_connect\<close> fails without creating a socket.
\<close>

theorem yak_connect_bad_arguments:
  "(portnum < 0 \<or> portnum > 65535 \<longrightarrow>
      (\<exists>status conn' w'. yak_connect (Some c) host portnum w = (status, conn', w') \<and>
         status \<noteq> 0 \<and> yak_is_open conn' = False \<and> trace w' = trace w \<and> errno w' = EINVAL)) \<and>
   (resolver w '''' ''80'' False = [] \<longrightarrow>
      (\<exists>status conn' w'. yak_connect (Some c) (Some '''') 80 w = (status, conn', w') \<and>
         status \<noteq> 0 \<and> yak_is_open conn' = False \<and>
         trace w' = trace w @ [GetAddrInfo '''' ''80'' False]))"
proof (intro conjI impI)
  assume "portnum < 0 \<or> portnum > 65535"
  then have "yak_connect (Some c) host portnum w =
               (EACCES, Some \<lparr>peer = None, sock = -1, port = 0\<rparr>, w\<lparr>errno := EINVAL\<rparr>)"
    by (simp add: yak_connect_def yak_init_def listaddrinfo_def Let_def)
  then show "\<exists>status conn' w'. yak_connect (Some c) host portnum w = (status, conn', w') \<and>
         status \<noteq> 0 \<and> yak_is_open conn' = False \<and> trace w' = trace w \<and> errno w' = EINVAL"
    by (simp add: EACCES_def yak_is_open_def)
next
  assume "resolver w '''' ''80'' False = []"
  then have "yak_connect (Some c) (Some '''') 80 w =
               (EACCES, Some \<lparr>peer = None, sock = -1, port = 0\<rparr>,
                w\<lparr>trace := trace w @ [GetAddrInfo '''' ''80'' False]\<rparr>)"
    by (simp add: yak_connect_def yak_init_def listaddrinfo_def Let_def print_integer_80
          getaddrinfo_def)
  then show "\<exists>status conn' w'. yak_connect (Some c) (Some '''') 80 w = (status, conn', w') \<and>
         status \<noteq> 0 \<and> yak_is_open conn' = False \<and>
         trace w' = trace w @ [GetAddrInfo '''' ''80'' False]"
    by (simp add: EACCES_def yak_is_open_def)
qed

text \<open>The port -1 with the host \<^verbatim>\<open>localhost\<close>, and the empty host with the port 80.\<close>

theorem yak_connect_bad_arguments_witness:
  "((- 1 :: int) < 0 \<or> (- 1 :: int) > 65535) \<and> resolver quiet '''' ''80'' False = [] \<and>
   (case yak_connect (Some client) (Some ''localhost'') (- 1) quiet of
      (status, conn', w') \<Rightarrow>
        status \<noteq> 0 \<and> yak_is_open conn' = False \<and> trace w' = [] \<and> errno w' = EINVAL) \<and>
   (case yak_connect (Some client) (Some '''') 80 quiet of
      (status, conn', w') \<Rightarrow>
        status \<noteq> 0 \<and> yak_is_open conn' = False \<and> trace w' = [GetAddrInfo '''' ''80'' False])"
proof -
  have r: "resolver quiet '''' ''80'' False = []" by (simp add: quiet_def)
  have t: "trace quiet = []" by (simp add: quiet_def)
  from yak_connect_bad_arguments [of "- 1" client "Some ''localhost''" quiet]
  show ?thesis using r t by auto
qed

text \<open>
  The claim C4 as stated fails: with an empty host and the port 80 the resolver is
  called, and neither call returns an invalid-argument code (both return
  \<^verbatim>\<open>EACCES\<close>).
\<close>

theorem yak_connect_counterexample:
  "(case yak_connect (Some client) (Some '''') 80 quiet of
      (status, conn', w') \<Rightarrow> status = EACCES \<and> trace w' = [GetAddrInfo '''' ''80'' False])
   \<and> (case yak_connect (Some client) (Some ''localhost'') (- 1) quiet of
      (status, conn', w') \<Rightarrow> status = EACCES \<and> status \<noteq> EINVAL)"
  by code_simp

end
